theory Spec2Isabelle
  imports Main "HOL-Library.Sublist"
begin

section \<open>Presence: status derivation (lib.ts)\<close>

text \<open>
  Strings are character lists. Numbers that the source uses as millisecond
  counts are integers; the one non-integer value that reaches the code, the
  \<open>NaN\<close> that \<open>new Date(s).getTime()\<close> gives for an unparsable string,
  is the value \<open>None\<close> of the date parser, which is a parameter
  (\<open>Date\<close> belongs to the platform, not to the repository).
\<close>

datatype AgentStatus = Active | Idle | Away | Stuck

record ComputedStatus =
  cstatus :: AgentStatus
  idleFor :: "string option"

definition digit_char :: "nat \<Rightarrow> char" where
  "digit_char d = char_of (48 + d)"

fun show_nat :: "nat \<Rightarrow> string" where
  "show_nat n = (if n < 10 then [digit_char n] else show_nat (n div 10) @ [digit_char (n mod 10)])"

declare show_nat.simps [simp del]

definition show_int :: "int \<Rightarrow> string" where
  "show_int i = (if i < 0 then CHR ''-'' # show_nat (nat (- i)) else show_nat (nat i))"

text \<open>\<open>a % b\<close> of JavaScript: the remainder has the sign of the dividend.\<close>

definition js_rem :: "int \<Rightarrow> int \<Rightarrow> int" where
  "js_rem a b = (if a < 0 then - ((- a) mod \<bar>b\<bar>) else a mod \<bar>b\<bar>)"

definition formatDuration :: "int \<Rightarrow> string" where
  "formatDuration ms =
     (let seconds = ms div 1000;
          minutes = seconds div 60;
          hours = minutes div 60
      in if hours > 0 then show_int hours @ ''h '' @ show_int (js_rem minutes 60) @ ''m''
         else if minutes > 0 then show_int minutes @ ''m '' @ show_int (js_rem seconds 60) @ ''s''
         else show_int seconds @ ''s'')"

definition ACTIVE_MS :: int where
  "ACTIVE_MS = 30000"

definition IDLE_MS :: int where
  "IDLE_MS = 5 * 60000"

text \<open>
  \<open>computeStatus parseDate now lastActivityAt hasTask hasReservation thresholdMs\<close>:
  \<open>now\<close> is \<open>Date.now()\<close> and \<open>parseDate s\<close> is \<open>new Date(s).getTime()\<close>.
  The first test of the source, \<open>isNaN(elapsed) || elapsed < 0\<close>, is the
  \<open>None\<close> branch and the first \<open>if\<close> of the \<open>Some\<close> branch.
\<close>

definition computeStatus ::
  "(string \<Rightarrow> int option) \<Rightarrow> int \<Rightarrow> string \<Rightarrow> bool \<Rightarrow> bool \<Rightarrow> int \<Rightarrow> ComputedStatus" where
  "computeStatus parseDate now lastActivityAt hasTask hasReservation thresholdMs =
     (case parseDate lastActivityAt of
        None \<Rightarrow> \<lparr>cstatus = Active, idleFor = None\<rparr>
      | Some t \<Rightarrow>
          (let elapsed = now - t in
           if elapsed < 0 then \<lparr>cstatus = Active, idleFor = None\<rparr>
           else if elapsed < ACTIVE_MS then \<lparr>cstatus = Active, idleFor = None\<rparr>
           else if elapsed < IDLE_MS then \<lparr>cstatus = Idle, idleFor = Some (formatDuration elapsed)\<rparr>
           else if \<not> hasTask \<and> \<not> hasReservation
             then \<lparr>cstatus = Away, idleFor = Some (formatDuration elapsed)\<rparr>
           else if elapsed \<ge> thresholdMs
             then \<lparr>cstatus = Stuck, idleFor = Some (formatDuration elapsed)\<rparr>
           else \<lparr>cstatus = Idle, idleFor = Some (formatDuration elapsed)\<rparr>))"


section \<open>Paths and reservations (lib.ts)\<close>

record FileReservation =
  path :: string
  isDir :: bool
  reason_r :: "string option"
  since :: string

text \<open>
  The functions of \<open>node:path\<close> that the source imports (\<open>isAbsolute\<close>,
  \<open>resolve\<close>, \<open>normalize\<close>, \<open>sep\<close>) are library code, taken as a
  parameter.
\<close>

record path_module =
  path_isAbsolute :: "string \<Rightarrow> bool"
  path_resolve :: "string \<Rightarrow> string \<Rightarrow> string"
  path_normalize :: "string \<Rightarrow> string"
  path_sep :: string

definition backslash :: char where
  "backslash = char_of (92::nat)"

text \<open>
  \<open>String.prototype.trim\<close> removes white space and line terminators at both
  ends; of those, the code units below 256 are 9 to 13, 32 and 160.
\<close>

definition is_js_space :: "char \<Rightarrow> bool" where
  "is_js_space c = ((of_char c :: nat) \<in> {9, 10, 11, 12, 13, 32, 160})"

definition trim :: "string \<Rightarrow> string" where
  "trim s = rev (dropWhile is_js_space (rev (dropWhile is_js_space s)))"

definition endsWith :: "string \<Rightarrow> string \<Rightarrow> bool" where
  "endsWith s suf = suffix suf s"

definition startsWith :: "string \<Rightarrow> string \<Rightarrow> bool" where
  "startsWith s pre = prefix pre s"

text \<open>\<open>normalized.replace(/\\/g, "/")\<close>\<close>

definition backslashes_to_slashes :: "string \<Rightarrow> string" where
  "backslashes_to_slashes s = map (\<lambda>c. if c = backslash then CHR ''/'' else c) s"

definition normalizeFsPath :: "path_module \<Rightarrow> string \<Rightarrow> string \<Rightarrow> string" where
  "normalizeFsPath pm inputPath cwd =
     (let resolved = (if path_isAbsolute pm inputPath then inputPath
                      else path_resolve pm cwd inputPath);
          normalized = path_normalize pm resolved
      in backslashes_to_slashes normalized)"

text \<open>\<open>trimmed.replace(/[\\/]+$/, "")\<close>\<close>

definition strip_trailing_separators :: "string \<Rightarrow> string" where
  "strip_trailing_separators s =
     rev (dropWhile (\<lambda>c. c = backslash \<or> c = CHR ''/'') (rev s))"

definition normalizeReservationPath :: "path_module \<Rightarrow> string \<Rightarrow> string \<Rightarrow> string \<times> bool" where
  "normalizeReservationPath pm input cwd =
     (let trimmed = trim input;
          isDir = (endsWith trimmed ''/'' \<or> endsWith trimmed (path_sep pm));
          withoutTrailing = strip_trailing_separators trimmed
      in (normalizeFsPath pm withoutTrailing cwd, isDir))"

definition reservationMatches :: "string \<Rightarrow> FileReservation \<Rightarrow> bool" where
  "reservationMatches fileAbsPath reservation =
     (if fileAbsPath = [] then False
      else if isDir reservation then
        (let pre = (if endsWith (path reservation) ''/'' then path reservation
                    else path reservation @ ''/'')
         in fileAbsPath = path reservation \<or> startsWith fileAbsPath pre)
      else fileAbsPath = path reservation)"

section \<open>Crew tasks (crew/types.ts, crew/store.ts)\<close>

datatype TaskStatus = Todo | InProgress | Done | Blocked

record TaskEvidence =
  commits :: "string list option"
  tests :: "string list option"
  prs :: "string list option"

datatype ReviewVerdict = SHIP | NEEDS_WORK | MAJOR_RETHINK

record ReviewFeedback =
  verdict :: ReviewVerdict
  review_summary :: string
  issues :: "string list"
  suggestions :: "string list"
  reviewed_at :: string

record Task =
  task_id :: string
  title :: string
  status :: TaskStatus
  depends_on :: "string list"
  created_at :: string
  updated_at :: string
  started_at :: "string option"
  completed_at :: "string option"
  base_commit :: "string option"
  assigned_to :: "string option"
  summary :: "string option"
  evidence :: "TaskEvidence option"
  blocked_reason :: "string option"
  attempt_count :: nat
  last_review :: "ReviewFeedback option"

text \<open>
  \<open>getReadyTasks\<close> works on the list that \<open>getTasks(cwd)\<close> returns (the task
  files of the project, read and sorted); that list is the argument here.
  \<open>doneIds\<close> is the \<open>Set\<close> of the ids of the done tasks.
\<close>

definition getReadyTasks :: "Task list \<Rightarrow> Task list" where
  "getReadyTasks tasks =
     (let doneIds = set (map task_id (filter (\<lambda>t. status t = Done) tasks))
      in filter (\<lambda>task. if status task \<noteq> Todo then False
                        else list_all (\<lambda>depId. depId \<in> doneIds) (depends_on task)) tasks)"

text \<open>The task literal that \<open>createTask\<close> writes for a new id.\<close>

definition new_task :: "string \<Rightarrow> string \<Rightarrow> string list \<Rightarrow> string \<Rightarrow> Task" where
  "new_task ident ttl dependsOn now =
     \<lparr>task_id = ident, title = ttl, status = Todo, depends_on = dependsOn,
      created_at = now, updated_at = now, started_at = None, completed_at = None,
      base_commit = None, assigned_to = None, summary = None, evidence = None,
      blocked_reason = None, attempt_count = 0, last_review = None\<rparr>"

section \<open>Swarm coordination (store.ts)\<close>

subsection \<open>JSON objects\<close>

text \<open>
  \<open>AllClaims\<close> and \<open>AllCompletions\<close> are \<open>Record<string, Record<string, \<dots>>>\<close>,
  read with \<open>JSON.parse\<close> and written with \<open>JSON.stringify\<close>. An object is
  the list of its own properties in the order in which \<open>Object.entries\<close> and
  \<open>JSON.stringify\<close> enumerate them: the keys that are array indices first,
  in ascending numeric order, then the other keys in the order of their
  creation. Every object has each key once (\<open>obj_wf\<close>).
\<close>

type_synonym 'v obj = "(string \<times> 'v) list"

definition obj_wf :: "'v obj \<Rightarrow> bool" where
  "obj_wf ob = distinct (map fst ob)"

definition obj_get :: "'v obj \<Rightarrow> string \<Rightarrow> 'v option" where
  "obj_get ob k = map_of ob k"

definition obj_delete :: "string \<Rightarrow> 'v obj \<Rightarrow> 'v obj" where
  "obj_delete k ob = filter (\<lambda>kv. fst kv \<noteq> k) ob"

definition is_digit :: "char \<Rightarrow> bool" where
  "is_digit c = (48 \<le> (of_char c :: nat) \<and> (of_char c :: nat) \<le> 57)"

definition digits_value :: "string \<Rightarrow> nat" where
  "digits_value k = foldl (\<lambda>n c. 10 * n + ((of_char c :: nat) - 48)) 0 k"

text \<open>
  A key is an array index when it is the canonical decimal form of an integer
  from 0 to \<open>2^32 - 2\<close>.
\<close>

definition array_index :: "string \<Rightarrow> nat option" where
  "array_index k =
     (if k \<noteq> [] \<and> list_all is_digit k \<and> (k = ''0'' \<or> hd k \<noteq> CHR ''0'')
         \<and> digits_value k < 4294967295
      then Some (digits_value k) else None)"

fun obj_insert_index :: "nat \<Rightarrow> string \<Rightarrow> 'v \<Rightarrow> 'v obj \<Rightarrow> 'v obj" where
  "obj_insert_index n k v [] = [(k, v)]"
| "obj_insert_index n k v ((k', v') # rest) =
     (case array_index k' of
        Some m \<Rightarrow> if m < n then (k', v') # obj_insert_index n k v rest
                  else (k, v) # (k', v') # rest
      | None \<Rightarrow> (k, v) # (k', v') # rest)"

text \<open>\<open>ob[k] = v\<close>: an existing property keeps its place.\<close>

definition obj_set :: "string \<Rightarrow> 'v \<Rightarrow> 'v obj \<Rightarrow> 'v obj" where
  "obj_set k v ob =
     (if obj_get ob k \<noteq> None then map (\<lambda>kv. if fst kv = k then (k, v) else kv) ob
      else case array_index k of
             Some n \<Rightarrow> obj_insert_index n k v ob
           | None \<Rightarrow> ob @ [(k, v)])"

text \<open>
  The objects are ordinary objects, so the source's lookup \<open>ob[k]\<close> finds, for
  a key that is not an own property, the member of \<open>Object.prototype\<close> of
  that name when there is one, and the assignment \<open>ob[k] = v\<close> to the key
  \<open>__proto__\<close> creates no own property. \<open>obj_get\<close> and \<open>obj_set\<close> are the
  lookup and the assignment for the other keys (\<open>plain_key\<close>): the theorems on
  lookups take the looked-up spec path and task id to be plain keys, and the
  one on \<open>getClaims\<close>, which assigns the keys of the file to a new object,
  takes the file to have no key \<open>__proto__\<close>.
\<close>

definition inherited_name :: "string \<Rightarrow> bool" where
  "inherited_name k =
     (k \<in> set [''constructor'', ''__defineGetter__'', ''__defineSetter__'', ''hasOwnProperty'',
               ''__lookupGetter__'', ''__lookupSetter__'', ''isPrototypeOf'',
               ''propertyIsEnumerable'', ''toString'', ''valueOf'', ''__proto__'',
               ''toLocaleString''])"

definition plain_key :: "string \<Rightarrow> bool" where
  "plain_key k = (\<not> inherited_name k)"

definition no_proto_key :: "'v obj obj \<Rightarrow> bool" where
  "no_proto_key ob =
     list_all (\<lambda>st. fst st \<noteq> ''__proto__'' \<and> list_all (\<lambda>tc. fst tc \<noteq> ''__proto__'') (snd st)) ob"

subsection \<open>Claims, completions and what staleness reads\<close>

record ClaimEntry =
  agent :: string
  sessionId :: string
  pid :: int
  claimedAt :: string
  reason :: "string option"

record CompletionEntry =
  completedBy :: string
  completedAt :: string
  notes_c :: "string option"

type_synonym SpecClaims = "ClaimEntry obj"
type_synonym SpecCompletions = "CompletionEntry obj"
type_synonym AllClaims = "SpecClaims obj"
type_synonym AllCompletions = "SpecCompletions obj"

text \<open>
  \<open>isClaimStale\<close> reads the process table (\<open>process.kill(pid, 0)\<close> in
  \<open>isProcessAlive\<close>) and the registration file \<open><registry>/<agent>.json\<close>, of
  which it uses the fields \<open>pid\<close> and \<open>sessionId\<close>. The file is missing, or
  reading or parsing it throws, or it holds a registration.
\<close>

record AgentRegistration =
  reg_pid :: int
  reg_sessionId :: string

datatype registration_file = RegMissing | RegUnreadable | RegFile AgentRegistration

record swarm_env =
  isProcessAlive :: "int \<Rightarrow> bool"
  registry :: "string \<Rightarrow> registration_file"

definition isClaimStale :: "ClaimEntry \<Rightarrow> swarm_env \<Rightarrow> bool" where
  "isClaimStale claim dirs =
     (if \<not> isProcessAlive dirs (pid claim) then True
      else case registry dirs (agent claim) of
             RegMissing \<Rightarrow> True
           | RegUnreadable \<Rightarrow> True
           | RegFile reg \<Rightarrow>
               if \<not> isProcessAlive dirs (reg_pid reg) then True
               else if reg_sessionId reg \<noteq> sessionId claim then True
               else False)"

text \<open>
  The two files under the base directory, as \<open>readClaimsSync\<close> and
  \<open>readCompletionsSync\<close> read them (a missing or unparsable file reads as the
  empty object), and the log of the writes in the order in which they were made.
\<close>

datatype swarm_file = CLAIMS_FILE | COMPLETIONS_FILE

record swarm_files =
  claims_json :: AllClaims
  completions_json :: AllCompletions
  write_log :: "swarm_file list"

definition readClaimsSync :: "swarm_files \<Rightarrow> AllClaims" where
  "readClaimsSync fs = claims_json fs"

definition readCompletionsSync :: "swarm_files \<Rightarrow> AllCompletions" where
  "readCompletionsSync fs = completions_json fs"

definition writeClaimsSync :: "swarm_files \<Rightarrow> AllClaims \<Rightarrow> swarm_files" where
  "writeClaimsSync fs claims = fs\<lparr>claims_json := claims, write_log := write_log fs @ [CLAIMS_FILE]\<rparr>"

definition writeCompletionsSync :: "swarm_files \<Rightarrow> AllCompletions \<Rightarrow> swarm_files" where
  "writeCompletionsSync fs completions =
     fs\<lparr>completions_json := completions, write_log := write_log fs @ [COMPLETIONS_FILE]\<rparr>"

text \<open>
  \<open>cleanupStaleClaims\<close> mutates its argument and returns the number of claims
  it removed; here it returns the cleaned object with that number.
\<close>

fun cleanupStaleClaims :: "AllClaims \<Rightarrow> swarm_env \<Rightarrow> AllClaims \<times> nat" where
  "cleanupStaleClaims [] dirs = ([], 0)"
| "cleanupStaleClaims ((spec, tasks) # others) dirs =
     (let kept = filter (\<lambda>tc. \<not> isClaimStale (snd tc) dirs) tasks;
          removedHere = length (filter (\<lambda>tc. isClaimStale (snd tc) dirs) tasks);
          cleaned = cleanupStaleClaims others dirs
      in (if kept = [] then fst cleaned else (spec, kept) # fst cleaned,
          removedHere + snd cleaned))"

definition filterStaleTasks :: "SpecClaims \<Rightarrow> swarm_env \<Rightarrow> SpecClaims" where
  "filterStaleTasks tasks dirs =
     foldl (\<lambda>filteredTasks tc.
              if \<not> isClaimStale (snd tc) dirs then obj_set (fst tc) (snd tc) filteredTasks
              else filteredTasks) [] tasks"

definition filterStaleClaims :: "AllClaims \<Rightarrow> swarm_env \<Rightarrow> AllClaims" where
  "filterStaleClaims claims dirs =
     foldl (\<lambda>filtered st.
              (let filteredTasks = filterStaleTasks (snd st) dirs
               in if length filteredTasks > 0 then obj_set (fst st) filteredTasks filtered
                  else filtered)) [] claims"

fun findAgentTask :: "SpecClaims \<Rightarrow> string \<Rightarrow> string option" where
  "findAgentTask [] a = None"
| "findAgentTask ((taskId, claim) # others) a =
     (if agent claim = a then Some taskId else findAgentTask others a)"

fun findAgentClaim :: "AllClaims \<Rightarrow> string \<Rightarrow> (string \<times> string) option" where
  "findAgentClaim [] a = None"
| "findAgentClaim ((spec, tasks) # others) a =
     (case findAgentTask tasks a of
        Some taskId \<Rightarrow> Some (spec, taskId)
      | None \<Rightarrow> findAgentClaim others a)"

definition getClaims :: "swarm_files \<Rightarrow> swarm_env \<Rightarrow> AllClaims" where
  "getClaims fs dirs = filterStaleClaims (readClaimsSync fs) dirs"

definition getCompletions :: "swarm_files \<Rightarrow> AllCompletions" where
  "getCompletions fs = readCompletionsSync fs"

text \<open>\<open>ob[specPath]?.[taskId]\<close>\<close>

definition obj_get2 :: "'v obj obj \<Rightarrow> string \<Rightarrow> string \<Rightarrow> 'v option" where
  "obj_get2 ob specPath taskId =
     (case obj_get ob specPath of None \<Rightarrow> None | Some tasks \<Rightarrow> obj_get tasks taskId)"

text \<open>\<open>if (!ob[specPath]) ob[specPath] = {}; ob[specPath][taskId] = v\<close>\<close>

definition obj_set2 :: "string \<Rightarrow> string \<Rightarrow> 'v \<Rightarrow> 'v obj obj \<Rightarrow> 'v obj obj" where
  "obj_set2 specPath taskId v ob =
     (let ob1 = (if obj_get ob specPath = None then obj_set specPath [] ob else ob)
      in case obj_get ob1 specPath of
           None \<Rightarrow> ob1
         | Some tasks \<Rightarrow> obj_set specPath (obj_set taskId v tasks) ob1)"

text \<open>
  \<open>delete ob[specPath][taskId]; if (Object.keys(ob[specPath]).length === 0)
  delete ob[specPath]\<close>, reached only when \<open>ob[specPath][taskId]\<close> exists.
\<close>

definition obj_delete2 :: "string \<Rightarrow> string \<Rightarrow> 'v obj obj \<Rightarrow> 'v obj obj" where
  "obj_delete2 specPath taskId ob =
     (case obj_get ob specPath of
        None \<Rightarrow> ob
      | Some tasks \<Rightarrow>
          (let tasks' = obj_delete taskId tasks
           in if length tasks' = 0 then obj_delete specPath ob
              else obj_set specPath tasks' ob))"

datatype ClaimResult =
    ClaimSuccess string
  | AlreadyClaimed ClaimEntry
  | AlreadyHaveClaim "string \<times> string"

datatype UnclaimResult =
    UnclaimSuccess
  | UnclaimNotClaimed
  | UnclaimNotYourClaim string

datatype CompleteResult =
    CompleteSuccess string
  | CompleteNotClaimed
  | CompleteNotYourClaim string
  | AlreadyCompleted CompletionEntry

text \<open>\<open>isClaimSuccess\<close> and \<open>isCompleteSuccess\<close> of the source: \<open>r.success === true\<close>.\<close>

definition isClaimSuccess :: "ClaimResult \<Rightarrow> bool" where
  "isClaimSuccess r = (case r of ClaimSuccess at \<Rightarrow> True | _ \<Rightarrow> False)"

definition isCompleteSuccess :: "CompleteResult \<Rightarrow> bool" where
  "isCompleteSuccess r = (case r of CompleteSuccess at \<Rightarrow> True | _ \<Rightarrow> False)"

text \<open>
  The three operations are the bodies that run under \<open>withSwarmLock\<close>; taking
  the lock (which can fail after 50 tries) is not part of them. \<open>now\<close> is
  \<open>new Date().toISOString()\<close>. Their lookups and assignments by \<open>specPath\<close>
  and \<open>taskId\<close> are those of the source when the two are plain keys; for a
  name of a member of \<open>Object.prototype\<close> the source finds the inherited
  member (and answers \<open>already_claimed\<close>, \<open>not_your_claim\<close> or
  \<open>already_completed\<close> with it), or stores nothing under \<open>__proto__\<close>.
\<close>

definition claimTask ::
  "swarm_files \<Rightarrow> swarm_env \<Rightarrow> string \<Rightarrow> string \<Rightarrow> string \<Rightarrow> string \<Rightarrow> int \<Rightarrow> string option
     \<Rightarrow> string \<Rightarrow> swarm_files \<times> ClaimResult" where
  "claimTask fs dirs specPath taskId agentName session processId rsn now =
     (let cleaned = cleanupStaleClaims (readClaimsSync fs) dirs;
          claims = fst cleaned;
          removed = snd cleaned
      in case findAgentClaim claims agentName of
           Some existing \<Rightarrow>
             (if removed > 0 then writeClaimsSync fs claims else fs, AlreadyHaveClaim existing)
         | None \<Rightarrow>
             (case obj_get2 claims specPath taskId of
                Some existingClaim \<Rightarrow>
                  (if removed > 0 then writeClaimsSync fs claims else fs,
                   AlreadyClaimed existingClaim)
              | None \<Rightarrow>
                  (let newClaim = \<lparr>agent = agentName, sessionId = session, pid = processId,
                                    claimedAt = now, reason = rsn\<rparr>
                   in (writeClaimsSync fs (obj_set2 specPath taskId newClaim claims),
                       ClaimSuccess (claimedAt newClaim)))))"

definition unclaimTask ::
  "swarm_files \<Rightarrow> swarm_env \<Rightarrow> string \<Rightarrow> string \<Rightarrow> string \<Rightarrow> swarm_files \<times> UnclaimResult" where
  "unclaimTask fs dirs specPath taskId agentName =
     (let cleaned = cleanupStaleClaims (readClaimsSync fs) dirs;
          claims = fst cleaned;
          removed = snd cleaned
      in case obj_get2 claims specPath taskId of
           None \<Rightarrow> (if removed > 0 then writeClaimsSync fs claims else fs, UnclaimNotClaimed)
         | Some claim \<Rightarrow>
             if agent claim \<noteq> agentName
             then (if removed > 0 then writeClaimsSync fs claims else fs,
                   UnclaimNotYourClaim (agent claim))
             else (writeClaimsSync fs (obj_delete2 specPath taskId claims), UnclaimSuccess))"

definition completeTask ::
  "swarm_files \<Rightarrow> swarm_env \<Rightarrow> string \<Rightarrow> string \<Rightarrow> string \<Rightarrow> string option \<Rightarrow> string
     \<Rightarrow> swarm_files \<times> CompleteResult" where
  "completeTask fs dirs specPath taskId agentName nts now =
     (let cleaned = cleanupStaleClaims (readClaimsSync fs) dirs;
          claims = fst cleaned;
          completions = readCompletionsSync fs;
          removed = snd cleaned
      in case obj_get2 completions specPath taskId of
           Some existingCompletion \<Rightarrow>
             (if removed > 0 then writeClaimsSync fs claims else fs,
              AlreadyCompleted existingCompletion)
         | None \<Rightarrow>
             (case obj_get2 claims specPath taskId of
                None \<Rightarrow> (if removed > 0 then writeClaimsSync fs claims else fs, CompleteNotClaimed)
              | Some claim \<Rightarrow>
                  if agent claim \<noteq> agentName
                  then (if removed > 0 then writeClaimsSync fs claims else fs,
                        CompleteNotYourClaim (agent claim))
                  else
                    (let claims' = obj_delete2 specPath taskId claims;
                         completion = \<lparr>completedBy = agentName, completedAt = now, notes_c = nts\<rparr>;
                         completions' = obj_set2 specPath taskId completion completions;
                         fs1 = writeCompletionsSync fs completions';
                         fs2 = writeClaimsSync fs1 claims'
                     in (fs2, CompleteSuccess (completedAt completion)))))"

subsection \<open>The states the operations reach, and the single-claim property\<close>

text \<open>
  The entries of a claims object, each with its (spec, task id); the
  single-claim property says that no two entries have the same agent.
\<close>

definition entries :: "'v obj obj \<Rightarrow> ((string \<times> string) \<times> 'v) list" where
  "entries ob = concat (map (\<lambda>st. map (\<lambda>tc. ((fst st, fst tc), snd tc)) (snd st)) ob)"

definition single_claim_per_agent :: "AllClaims \<Rightarrow> bool" where
  "single_claim_per_agent claims = distinct (map (\<lambda>e. agent (snd e)) (entries claims))"

definition obj_wf2 :: "'v obj obj \<Rightarrow> bool" where
  "obj_wf2 ob = (obj_wf ob \<and> list_all (\<lambda>st. obj_wf (snd st)) ob)"

inductive reachable :: "swarm_files \<Rightarrow> bool" where
  start: "reachable \<lparr>claims_json = [], completions_json = [], write_log = []\<rparr>"
| claim: "reachable fs \<Longrightarrow>
     reachable (fst (claimTask fs dirs specPath taskId agentName session processId rsn now))"
| unclaim: "reachable fs \<Longrightarrow> reachable (fst (unclaimTask fs dirs specPath taskId agentName))"
| complete: "reachable fs \<Longrightarrow>
     reachable (fst (completeTask fs dirs specPath taskId agentName nts now))"

subsection \<open>Notions used to state the properties\<close>

text \<open>What is left of a looked-up claim once stale claims are dropped.\<close>

definition live_claim :: "swarm_env \<Rightarrow> ClaimEntry option \<Rightarrow> ClaimEntry option" where
  "live_claim dirs oc =
     (case oc of None \<Rightarrow> None | Some c \<Rightarrow> if isClaimStale c dirs then None else Some c)"

text \<open>
  The single-claim property on lookups: two slots whose claims have the same
  agent are the same slot. On an object without repeated keys it says the same
  as \<open>single_claim_per_agent\<close> (lemma \<open>single_claim_iff\<close>).
\<close>

definition single_map :: "AllClaims \<Rightarrow> bool" where
  "single_map cl \<longleftrightarrow>
     (\<forall>s1 t1 c1 s2 t2 c2. obj_get2 cl s1 t1 = Some c1 \<and> obj_get2 cl s2 t2 = Some c2
         \<and> agent c1 = agent c2 \<longrightarrow> s1 = s2 \<and> t1 = t2)"

text \<open>
  Two agents, \<open>A\<close> (process 101, session \<open>sA\<close>) and \<open>B\<close> (process 102,
  session \<open>sB\<close>), both registered and alive, and no other registration.
\<close>

definition two_agents :: swarm_env where
  "two_agents =
     \<lparr>isProcessAlive = (\<lambda>p. p = 101 \<or> p = 102),
      registry = (\<lambda>n. if n = ''A'' then RegFile \<lparr>reg_pid = 101, reg_sessionId = ''sA''\<rparr>
                       else if n = ''B'' then RegFile \<lparr>reg_pid = 102, reg_sessionId = ''sB''\<rparr>
                       else RegMissing)\<rparr>"

section \<open>Crew store: task lifecycle (crew/store.ts, crew/handlers/task.ts)\<close>

text \<open>
  Of the project directory, the task files \<open>tasks/<id>.json\<close> as \<open>readJson\<close>
  reads them (\<open>None\<close> for a file that is missing or does not parse) and the
  block files \<open>blocks/<id>.md\<close>.
\<close>

record crew_store =
  task_files :: "string \<Rightarrow> Task option"
  block_files :: "string \<Rightarrow> string option"

definition getTask :: "crew_store \<Rightarrow> string \<Rightarrow> Task option" where
  "getTask st taskId = task_files st taskId"

text \<open>
  \<open>updateTask\<close> writes \<open>{...task, ...updates, updated_at: now}\<close>; the partial
  task \<open>updates\<close> is the function that sets its fields.
\<close>

definition updateTask ::
  "crew_store \<Rightarrow> string \<Rightarrow> (Task \<Rightarrow> Task) \<Rightarrow> string \<Rightarrow> crew_store \<times> Task option" where
  "updateTask st taskId updates now =
     (case getTask st taskId of
        None \<Rightarrow> (st, None)
      | Some task \<Rightarrow>
          (let updated = (updates task)\<lparr>updated_at := now\<rparr>
           in (st\<lparr>task_files := (task_files st)(taskId \<mapsto> updated)\<rparr>, Some updated)))"

definition newline :: string where
  "newline = [char_of (10::nat)]"

text \<open>
  \<open>blockedAt\<close> is the time written into the block file, \<open>now\<close> the one that
  \<open>updateTask\<close> takes afterwards.
\<close>

definition blockTask ::
  "crew_store \<Rightarrow> string \<Rightarrow> string \<Rightarrow> string \<Rightarrow> string \<Rightarrow> crew_store \<times> Task option" where
  "blockTask st taskId rsn blockedAt now =
     (case getTask st taskId of
        None \<Rightarrow> (st, None)
      | Some task \<Rightarrow>
          (let content = ''# Blocked: '' @ title task @ newline @ newline
                 @ ''**Reason:** '' @ rsn @ newline @ newline
                 @ ''**Blocked at:** '' @ blockedAt @ newline;
               st1 = st\<lparr>block_files := (block_files st)(taskId \<mapsto> content)\<rparr>
           in updateTask st1 taskId
                (\<lambda>t. t\<lparr>status := Blocked, blocked_reason := Some rsn, assigned_to := None\<rparr>) now))"

text \<open>
  The sibling transitions of the store, each with its guard on the status the
  task is in.
\<close>

definition startTask ::
  "crew_store \<Rightarrow> string \<Rightarrow> string \<Rightarrow> string option \<Rightarrow> string \<Rightarrow> string
     \<Rightarrow> crew_store \<times> Task option" where
  "startTask st taskId agentName baseCommit startedAt now =
     (case getTask st taskId of
        None \<Rightarrow> (st, None)
      | Some task \<Rightarrow>
          if status task \<noteq> Todo then (st, None)
          else updateTask st taskId
                 (\<lambda>t. t\<lparr>status := InProgress, started_at := Some startedAt,
                         base_commit := baseCommit, assigned_to := Some agentName,
                         attempt_count := attempt_count task + 1\<rparr>) now)"

definition unblockTask :: "crew_store \<Rightarrow> string \<Rightarrow> string \<Rightarrow> crew_store \<times> Task option" where
  "unblockTask st taskId now =
     (case getTask st taskId of
        None \<Rightarrow> (st, None)
      | Some task \<Rightarrow>
          if status task \<noteq> Blocked then (st, None)
          else updateTask (st\<lparr>block_files := (block_files st)(taskId := None)\<rparr>) taskId
                 (\<lambda>t. t\<lparr>status := Todo, blocked_reason := None\<rparr>) now)"

text \<open>
  The handler of \<open>task.block\<close>. Its result is the \<open>details\<close> object: the error
  code, or the fields of the blocked task. \<open>!params.id\<close> holds for a missing and
  for an empty string.
\<close>

datatype task_block_details =
    BlockError string
  | BlockDetails string string TaskStatus "string option"

definition taskBlock ::
  "crew_store \<Rightarrow> string option \<Rightarrow> string option \<Rightarrow> string \<Rightarrow> string
     \<Rightarrow> crew_store \<times> task_block_details" where
  "taskBlock st params_id params_reason blockedAt now =
     (case params_id of
        None \<Rightarrow> (st, BlockError ''missing_id'')
      | Some ident \<Rightarrow>
          if ident = [] then (st, BlockError ''missing_id'')
          else
            (case params_reason of
               None \<Rightarrow> (st, BlockError ''missing_reason'')
             | Some rsn \<Rightarrow>
                 if rsn = [] then (st, BlockError ''missing_reason'')
                 else
                   (case getTask st ident of
                      None \<Rightarrow> (st, BlockError ''not_found'')
                    | Some task \<Rightarrow>
                        (case blockTask st ident rsn blockedAt now of
                           (st', None) \<Rightarrow> (st', BlockError ''block_failed'')
                         | (st', Some blocked) \<Rightarrow>
                             (st', BlockDetails (task_id blocked) (title blocked)
                                     (status blocked) (blocked_reason blocked))))))"

section \<open>Autonomous mode (crew/state.ts, crew/handlers/work.ts, index.ts)\<close>

datatype StopReason = StopCompleted | StopBlocked | StopManual

record WaveResult =
  wave_waveNumber :: int
  tasksAttempted :: "string list"
  succeeded :: "string list"
  failed :: "string list"
  blocked :: "string list"
  timestamp :: string

record AutonomousState =
  active :: bool
  cwd :: "string option"
  waveNumber :: int
  attemptsPerTask :: "nat obj"
  waveHistory :: "WaveResult list"
  startedAt :: "string option"
  stoppedAt :: "string option"
  stopReason :: "StopReason option"

definition startAutonomous :: "string \<Rightarrow> string \<Rightarrow> AutonomousState" where
  "startAutonomous dir now =
     \<lparr>active = True, cwd = Some dir, waveNumber = 1, attemptsPerTask = [], waveHistory = [],
      startedAt = Some now, stoppedAt = None, stopReason = None\<rparr>"

definition stopAutonomous :: "StopReason \<Rightarrow> string \<Rightarrow> AutonomousState \<Rightarrow> AutonomousState" where
  "stopAutonomous rsn now st = st\<lparr>active := False, stoppedAt := Some now, stopReason := Some rsn\<rparr>"

definition addWaveResult :: "WaveResult \<Rightarrow> AutonomousState \<Rightarrow> AutonomousState" where
  "addWaveResult result st =
     st\<lparr>waveHistory := waveHistory st @ [result], waveNumber := waveNumber st + 1\<rparr>"

text \<open>
  What \<open>appendEntry\<close> receives: the state under \<open>crew-state\<close>, and the three
  wave entries (\<open>crew_wave_complete\<close>: prd, totalWaves, totalTasks;
  \<open>crew_wave_blocked\<close>: prd, blockedTasks; \<open>crew_wave_continue\<close>: prd, nextWave,
  readyTasks).
\<close>

datatype session_entry =
    CrewState AutonomousState
  | CrewWaveComplete string int nat
  | CrewWaveBlocked string "string list"
  | CrewWaveContinue string int "string list"

text \<open>
  The work handler \<open>execute\<close>, autonomous part. Before the workers are spawned:
  \<open>if (autonomous && (!autonomousState.active || autonomousState.cwd !== cwd))\<close>.
\<close>

definition execute_setup ::
  "bool \<Rightarrow> AutonomousState \<Rightarrow> string \<Rightarrow> string \<Rightarrow> AutonomousState \<times> session_entry list" where
  "execute_setup autonomous st dir now =
     (if autonomous \<and> (\<not> active st \<or> cwd st \<noteq> Some dir)
      then (startAutonomous dir now, [CrewState (startAutonomous dir now)])
      else (st, []))"

text \<open>
  After the workers have returned and their results are sorted into
  \<open>succeeded\<close>, \<open>failed\<close> and \<open>blocked\<close>: from \<open>const currentWave\<close> to the end of
  \<open>if (autonomous) {\<dots>}\<close>. \<open>tasks\<close> is what \<open>getTasks(cwd)\<close> returns then, and
  \<open>attempted\<close> the ids of \<open>tasksToRun\<close>. The handler reads none of the wave
  limits of the configuration.
\<close>

definition execute_after_wave ::
  "bool \<Rightarrow> AutonomousState \<Rightarrow> string list \<Rightarrow> string list \<Rightarrow> string list \<Rightarrow> string list
     \<Rightarrow> Task list \<Rightarrow> string \<Rightarrow> string \<Rightarrow> string \<Rightarrow> AutonomousState \<times> session_entry list" where
  "execute_after_wave autonomous st attempted succ fld blk tasks prd waveTime now =
     (let currentWave = (if autonomous then waveNumber st else 1)
      in if autonomous then
           (let st1 = addWaveResult
                        \<lparr>wave_waveNumber = currentWave, tasksAttempted = attempted,
                         succeeded = succ, failed = fld, blocked = blk,
                         timestamp = waveTime\<rparr> st;
                nextReady = getReadyTasks tasks;
                allTasks = tasks;
                allDone = list_all (\<lambda>t. status t = Done) allTasks;
                allBlockedOrDone = list_all (\<lambda>t. status t = Done \<or> status t = Blocked) allTasks
            in if allDone then
                 (let st2 = stopAutonomous StopCompleted now st1
                  in (st2, [CrewState st2, CrewWaveComplete prd currentWave (length allTasks)]))
               else if allBlockedOrDone \<or> length nextReady = 0 then
                 (let st2 = stopAutonomous StopBlocked now st1
                  in (st2, [CrewState st2,
                            CrewWaveBlocked prd
                              (map task_id (filter (\<lambda>t. status t = Blocked) allTasks))]))
               else (st1, [CrewState st1,
                           CrewWaveContinue prd (waveNumber st1) (map task_id nextReady)]))
         else (st, []))"

text \<open>
  The \<open>agent_end\<close> handler of index.ts, which runs when the host agent's turn
  ends. \<open>maxWaves\<close> is \<open>crewConfig.work.maxWaves\<close>, \<open>tasks\<close> what \<open>getTasks\<close>
  returns. The second component is the \<open>crew_continue\<close> steer message, when one
  is sent: the wave number and the number of ready tasks.
\<close>

definition agent_end ::
  "AutonomousState \<Rightarrow> int \<Rightarrow> Task list \<Rightarrow> string \<Rightarrow> AutonomousState \<times> (int \<times> nat) option" where
  "agent_end st maxWaves tasks now =
     (if \<not> active st then (st, None)
      else if waveNumber st \<ge> maxWaves then (stopAutonomous StopManual now st, None)
      else
        (let readyTasks = getReadyTasks tasks
         in if length readyTasks = 0 then
              (let allDone = list_all (\<lambda>t. status t = Done) tasks
               in (stopAutonomous (if allDone then StopCompleted else StopBlocked) now st, None))
            else (st, Some (waveNumber st, length readyTasks))))"

section \<open>Theorems\<close>

subsection \<open>Status derivation\<close>

text \<open>
  C10. When the last-activity timestamp does not parse (elapsed is NaN) or lies
  in the future (elapsed is negative), \<open>computeStatus\<close> returns the status
  active with no \<open>idleFor\<close>, whatever the flags and the threshold are.
\<close>

theorem computeStatus_unparsed_or_future:
  assumes "parseDate lastActivityAt = None \<or> (\<exists>t. parseDate lastActivityAt = Some t \<and> now - t < 0)"
  shows "computeStatus parseDate now lastActivityAt hasTask hasReservation thresholdMs
           = \<lparr>cstatus = Active, idleFor = None\<rparr>"
  using assms by (auto simp: computeStatus_def Let_def)

theorem computeStatus_unparsed_or_future_witness:
  "computeStatus (\<lambda>s. if s = ''2026-01-01T00:00:10.000Z'' then Some 10000 else None)
       4000 ''not a date'' True True 900000 = \<lparr>cstatus = Active, idleFor = None\<rparr>
   \<and> computeStatus (\<lambda>s. if s = ''2026-01-01T00:00:10.000Z'' then Some 10000 else None)
       4000 ''2026-01-01T00:00:10.000Z'' True False 0 = \<lparr>cstatus = Active, idleFor = None\<rparr>"
  using computeStatus_unparsed_or_future
          [of "\<lambda>s. if s = ''2026-01-01T00:00:10.000Z'' then Some 10000 else None"
              "''not a date''" 4000 True True 900000]
        computeStatus_unparsed_or_future
          [of "\<lambda>s. if s = ''2026-01-01T00:00:10.000Z'' then Some 10000 else None"
              "''2026-01-01T00:00:10.000Z''" 4000 True False 0]
  by simp

text \<open>
  C7. The rows are read in order, a row applying when no earlier one does (the
  first two rows overlap, so they can be read in no other way). Under 30
  seconds the status is active; then, under 5 minutes, it is idle; from 5
  minutes and below the threshold it is idle with a claim or reservation and
  away with neither; and beyond those rows, at or above the threshold, with a
  claim or reservation it is stuck. This holds for every threshold: below a
  threshold of less than 5 minutes the earlier rows decide.
\<close>

theorem computeStatus_table:
  assumes "parseDate lastActivityAt = Some t"
  shows "(now - t < 30000 \<longrightarrow>
            cstatus (computeStatus parseDate now lastActivityAt hasTask hasReservation thresholdMs) = Active)
       \<and> (30000 \<le> now - t \<and> now - t < 300000 \<longrightarrow>
            cstatus (computeStatus parseDate now lastActivityAt hasTask hasReservation thresholdMs) = Idle)
       \<and> (300000 \<le> now - t \<and> now - t < thresholdMs \<and> (hasTask \<or> hasReservation) \<longrightarrow>
            cstatus (computeStatus parseDate now lastActivityAt hasTask hasReservation thresholdMs) = Idle)
       \<and> (300000 \<le> now - t \<and> now - t < thresholdMs \<and> \<not> hasTask \<and> \<not> hasReservation \<longrightarrow>
            cstatus (computeStatus parseDate now lastActivityAt hasTask hasReservation thresholdMs) = Away)
       \<and> (300000 \<le> now - t \<and> thresholdMs \<le> now - t \<and> (hasTask \<or> hasReservation) \<longrightarrow>
            cstatus (computeStatus parseDate now lastActivityAt hasTask hasReservation thresholdMs) = Stuck)"
  using assms by (auto simp: computeStatus_def Let_def ACTIVE_MS_def IDLE_MS_def)

theorem computeStatus_table_witness:
  "cstatus (computeStatus (\<lambda>s. Some 0) 29999 ''t'' True False 900000) = Active
   \<and> cstatus (computeStatus (\<lambda>s. Some 0) 30000 ''t'' True False 900000) = Idle
   \<and> cstatus (computeStatus (\<lambda>s. Some 0) 300000 ''t'' False True 900000) = Idle
   \<and> cstatus (computeStatus (\<lambda>s. Some 0) 300000 ''t'' False False 900000) = Away
   \<and> cstatus (computeStatus (\<lambda>s. Some 0) 900000 ''t'' True False 900000) = Stuck
   \<and> cstatus (computeStatus (\<lambda>s. Some 0) 100000 ''t'' True False 60000) = Idle
   \<and> cstatus (computeStatus (\<lambda>s. Some 0) 300000 ''t'' True False 60000) = Stuck"
  using computeStatus_table [of "\<lambda>s. Some 0" "''t''" 0 29999 True False 900000]
        computeStatus_table [of "\<lambda>s. Some 0" "''t''" 0 30000 True False 900000]
        computeStatus_table [of "\<lambda>s. Some 0" "''t''" 0 300000 False True 900000]
        computeStatus_table [of "\<lambda>s. Some 0" "''t''" 0 300000 False False 900000]
        computeStatus_table [of "\<lambda>s. Some 0" "''t''" 0 900000 True False 900000]
        computeStatus_table [of "\<lambda>s. Some 0" "''t''" 0 100000 True False 60000]
        computeStatus_table [of "\<lambda>s. Some 0" "''t''" 0 300000 True False 60000]
  by simp

subsection \<open>Reservations\<close>

lemma dropWhile_keeps_last:
  "\<not> P c \<Longrightarrow> dropWhile P (xs @ [c]) = dropWhile P xs @ [c]"
  by (induction xs) auto

lemma trim_keeps_trailing_slash:
  assumes "endsWith s ''/''"
  shows "endsWith (trim s) ''/''"
proof -
  from assms obtain xs where s: "s = xs @ ''/''"
    by (auto simp: endsWith_def suffix_def)
  have ns: "\<not> is_js_space CHR ''/''"
    by (simp add: is_js_space_def)
  have "dropWhile is_js_space s = dropWhile is_js_space xs @ ''/''"
    using ns by (simp add: s dropWhile_keeps_last)
  then have "trim s = rev (dropWhile is_js_space (CHR ''/'' # rev (dropWhile is_js_space xs)))"
    by (simp add: trim_def)
  then have "trim s = dropWhile is_js_space xs @ ''/''"
    using ns by simp
  then show ?thesis
    by (simp add: endsWith_def suffix_def)
qed

text \<open>
  C5 (as amended). For a directory reservation whose stored path \<open>D\<close> is not
  empty and does not end with a slash, a target \<open>P\<close> matches iff \<open>P = D\<close> or
  \<open>P\<close> starts with \<open>D\<close> followed by a slash. When \<open>D\<close> itself ends with a
  slash (the file-system root), no second slash is added: \<open>P\<close> matches iff it
  starts with \<open>D\<close>. For a file reservation with a non-empty path, \<open>P\<close> matches
  iff it equals the path. The empty target matches nothing. A trailing slash
  on the input marks the reservation as a directory.
\<close>

theorem reservationMatches_nesting:
  "(isDir r \<and> path r \<noteq> [] \<and> \<not> endsWith (path r) ''/'' \<longrightarrow>
      (reservationMatches P r \<longleftrightarrow> P = path r \<or> startsWith P (path r @ ''/'')))
   \<and> (isDir r \<and> endsWith (path r) ''/'' \<longrightarrow>
      (reservationMatches P r \<longleftrightarrow> startsWith P (path r)))
   \<and> (\<not> isDir r \<and> path r \<noteq> [] \<longrightarrow> (reservationMatches P r \<longleftrightarrow> P = path r))
   \<and> (P = [] \<longrightarrow> \<not> reservationMatches P r)
   \<and> (endsWith input ''/'' \<longrightarrow> snd (normalizeReservationPath pm input dir))"
proof (intro conjI impI)
  assume "isDir r \<and> path r \<noteq> [] \<and> \<not> endsWith (path r) ''/''"
  then show "reservationMatches P r \<longleftrightarrow> P = path r \<or> startsWith P (path r @ ''/'')"
    by (auto simp: reservationMatches_def startsWith_def)
next
  assume a: "isDir r \<and> endsWith (path r) ''/''"
  then have "path r \<noteq> []"
    by (auto simp: endsWith_def)
  with a show "reservationMatches P r \<longleftrightarrow> startsWith P (path r)"
    by (auto simp: reservationMatches_def startsWith_def)
next
  assume "\<not> isDir r \<and> path r \<noteq> []"
  then show "reservationMatches P r \<longleftrightarrow> P = path r"
    by (auto simp: reservationMatches_def)
next
  assume "P = []"
  then show "\<not> reservationMatches P r"
    by (simp add: reservationMatches_def)
next
  assume "endsWith input ''/''"
  then show "snd (normalizeReservationPath pm input dir)"
    by (simp add: normalizeReservationPath_def Let_def trim_keeps_trailing_slash)
qed

theorem reservationMatches_nesting_witness:
  "reservationMatches ''/src/auth/login.ts''
      \<lparr>path = ''/src/auth'', isDir = True, reason_r = None, since = ''t0''\<rparr>
   \<and> \<not> reservationMatches ''/src/authors.ts''
      \<lparr>path = ''/src/auth'', isDir = True, reason_r = None, since = ''t0''\<rparr>
   \<and> reservationMatches ''/etc''
      \<lparr>path = ''/'', isDir = True, reason_r = None, since = ''t0''\<rparr>
   \<and> \<not> reservationMatches ''/src/auth/login.ts''
      \<lparr>path = ''/src/auth'', isDir = False, reason_r = None, since = ''t0''\<rparr>
   \<and> \<not> reservationMatches []
      \<lparr>path = ''/src/auth'', isDir = True, reason_r = None, since = ''t0''\<rparr>
   \<and> snd (normalizeReservationPath
        \<lparr>path_isAbsolute = (\<lambda>p. True), path_resolve = (\<lambda>c p. p),
         path_normalize = (\<lambda>p. p), path_sep = ''/''\<rparr> ''/src/auth/'' ''/'')"
proof -
  let ?pm = "\<lparr>path_isAbsolute = (\<lambda>p. True), path_resolve = (\<lambda>c p. p),
              path_normalize = (\<lambda>p. p), path_sep = ''/''\<rparr>"
  let ?dir = "\<lparr>path = ''/src/auth'', isDir = True, reason_r = None, since = ''t0''\<rparr>"
  let ?root = "\<lparr>path = ''/'', isDir = True, reason_r = None, since = ''t0''\<rparr>"
  let ?file = "\<lparr>path = ''/src/auth'', isDir = False, reason_r = None, since = ''t0''\<rparr>"
  have a: "reservationMatches ''/src/auth/login.ts'' ?dir
             \<and> snd (normalizeReservationPath ?pm ''/src/auth/'' ''/'')"
    using reservationMatches_nesting [of ?dir "''/src/auth/login.ts''" "''/src/auth/''" ?pm "''/''"]
    by (simp add: startsWith_def endsWith_def suffix_to_prefix)
  have b: "\<not> reservationMatches ''/src/authors.ts'' ?dir"
    using reservationMatches_nesting [of ?dir "''/src/authors.ts''" "''/src/auth/''" ?pm "''/''"]
    by (simp add: startsWith_def endsWith_def suffix_to_prefix)
  have c: "reservationMatches ''/etc'' ?root"
    using reservationMatches_nesting [of ?root "''/etc''" "''/src/auth/''" ?pm "''/''"]
    by (simp add: startsWith_def endsWith_def suffix_to_prefix)
  have d: "\<not> reservationMatches ''/src/auth/login.ts'' ?file"
    using reservationMatches_nesting [of ?file "''/src/auth/login.ts''" "''/src/auth/''" ?pm "''/''"]
    by (simp add: startsWith_def endsWith_def suffix_to_prefix)
  have e: "\<not> reservationMatches [] ?dir"
    using reservationMatches_nesting [of ?dir "[]" "''/src/auth/''" ?pm "''/''"]
    by (simp add: startsWith_def endsWith_def suffix_to_prefix)
  from a b c d e show ?thesis by blast
qed

text \<open>
  The claim as stated fails for a reservation of the root directory, whose
  stored path is the slash alone: \<open>/etc/passwd\<close> matches it, though it neither
  equals the path nor starts with the path followed by a slash.
\<close>

theorem reservationMatches_root_counterexample:
  "reservationMatches ''/etc/passwd'' \<lparr>path = ''/'', isDir = True, reason_r = None, since = ''t0''\<rparr>
   \<and> \<not> (''/etc/passwd'' = ''/'' \<or> startsWith ''/etc/passwd'' (''/'' @ ''/''))"
  by (simp add: reservationMatches_def startsWith_def endsWith_def)

subsection \<open>Task readiness\<close>

text \<open>
  C6. \<open>getReadyTasks\<close> returns exactly the tasks whose status is todo and all of
  whose dependencies are ids of done tasks, in the order of the task list; a
  task with another status, or with a dependency that is not done, is not
  returned.
\<close>

theorem getReadyTasks_exactly:
  "getReadyTasks tasks =
     filter (\<lambda>t. status t = Todo \<and>
        (\<forall>d \<in> set (depends_on t). \<exists>t' \<in> set tasks. task_id t' = d \<and> status t' = Done)) tasks"
  unfolding getReadyTasks_def Let_def list_all_iff
  by (rule filter_cong) auto

theorem getReadyTasks_exactly_witness:
  "getReadyTasks
     [(new_task ''task-1'' ''a'' [] ''t0'')\<lparr>status := Done\<rparr>,
      new_task ''task-2'' ''b'' [''task-1''] ''t0'',
      new_task ''task-3'' ''c'' [''task-1'', ''task-2''] ''t0'',
      (new_task ''task-4'' ''d'' [] ''t0'')\<lparr>status := InProgress\<rparr>]
   = [new_task ''task-2'' ''b'' [''task-1''] ''t0'']"
  using getReadyTasks_exactly
    [of "[(new_task ''task-1'' ''a'' [] ''t0'')\<lparr>status := Done\<rparr>,
          new_task ''task-2'' ''b'' [''task-1''] ''t0'',
          new_task ''task-3'' ''c'' [''task-1'', ''task-2''] ''t0'',
          (new_task ''task-4'' ''d'' [] ''t0'')\<lparr>status := InProgress\<rparr>]"]
  by (simp add: new_task_def)

subsection \<open>Swarm coordination: objects\<close>

lemma obj_get_insert_index:
  "obj_get ob k = None \<Longrightarrow>
     obj_get (obj_insert_index n k v ob) k' = (if k' = k then Some v else obj_get ob k')"
proof (induction ob)
  case Nil
  then show ?case by (simp add: obj_get_def)
next
  case (Cons a ob)
  obtain k0 v0 where a: "a = (k0, v0)" by (cases a)
  from Cons.prems have ne: "k0 \<noteq> k" and none: "obj_get ob k = None"
    by (auto simp: obj_get_def a split: if_splits)
  from Cons.IH [OF none] ne show ?case
    by (auto simp: obj_get_def a split: option.splits)
qed

lemma set_insert_index: "set (obj_insert_index n k v ob) = insert (k, v) (set ob)"
  by (induction ob) (auto split: option.splits if_splits)

lemma keys_insert_index:
  "k \<notin> fst ` set ob \<Longrightarrow> distinct (map fst ob) \<Longrightarrow> distinct (map fst (obj_insert_index n k v ob))"
  by (induction ob) (auto simp: set_insert_index split: option.splits)

lemma obj_get_None_iff: "obj_get ob k = None \<longleftrightarrow> k \<notin> fst ` set ob"
  by (simp add: obj_get_def map_of_eq_None_iff)

lemma obj_get_replace:
  "obj_get (map (\<lambda>kv. if fst kv = k then (k, v) else kv) ob) k'
     = (if k' = k then (if obj_get ob k = None then None else Some v) else obj_get ob k')"
  by (induction ob) (auto simp: obj_get_def)

lemma obj_get_append:
  "obj_get ob k = None \<Longrightarrow> obj_get (ob @ [(k, v)]) k' = (if k' = k then Some v else obj_get ob k')"
  by (induction ob) (auto simp: obj_get_def)

lemma obj_get_obj_set:
  "obj_get (obj_set k v ob) k' = (if k' = k then Some v else obj_get ob k')"
  by (auto simp: obj_set_def obj_get_replace obj_get_insert_index obj_get_append
           split: option.splits)

lemma keys_replace: "map fst (map (\<lambda>kv. if fst kv = k then (k, v) else kv) ob) = map fst ob"
  by (induction ob) auto

lemma obj_wf_replace: "obj_wf ob \<Longrightarrow> obj_wf (map (\<lambda>kv. if fst kv = k then (k, v) else kv) ob)"
  unfolding obj_wf_def keys_replace .

lemma obj_wf_obj_set: "obj_wf ob \<Longrightarrow> obj_wf (obj_set k v ob)"
proof (cases "obj_get ob k = None")
  case False
  assume "obj_wf ob"
  with False show ?thesis
    by (simp add: obj_set_def obj_wf_replace)
next
  case True
  assume "obj_wf ob"
  with True show ?thesis
    by (auto simp: obj_set_def obj_wf_def keys_insert_index obj_get_None_iff split: option.splits)
qed

lemma set_obj_set: "set (obj_set k v ob) \<subseteq> insert (k, v) (set ob)"
  by (auto simp: obj_set_def set_insert_index split: option.splits if_splits)

lemma obj_get_obj_delete:
  "obj_get (obj_delete k ob) k' = (if k' = k then None else obj_get ob k')"
  by (induction ob) (auto simp: obj_get_def obj_delete_def)

lemma obj_wf_obj_delete: "obj_wf ob \<Longrightarrow> obj_wf (obj_delete k ob)"
  by (simp add: obj_wf_def obj_delete_def distinct_map_filter)

lemma obj_wf_Some: "obj_wf2 ob \<Longrightarrow> obj_get ob s = Some tasks \<Longrightarrow> obj_wf tasks"
  by (auto simp: obj_wf2_def obj_get_def list_all_iff dest!: map_of_SomeD)

lemma obj_wf2_obj_set: "obj_wf2 ob \<Longrightarrow> obj_wf tasks \<Longrightarrow> obj_wf2 (obj_set s tasks ob)"
  using set_obj_set [of s tasks ob]
  by (auto simp: obj_wf2_def obj_wf_obj_set list_all_iff)

lemma obj_wf2_obj_delete: "obj_wf2 ob \<Longrightarrow> obj_wf2 (obj_delete s ob)"
  by (auto simp: obj_wf2_def obj_wf_obj_delete list_all_iff) (auto simp: obj_delete_def)

lemma obj_get2_obj_set2:
  "obj_get2 (obj_set2 s t v ob) s' t' = (if s' = s \<and> t' = t then Some v else obj_get2 ob s' t')"
proof (cases "obj_get ob s")
  case None
  then show ?thesis
    by (simp add: obj_get2_def obj_set2_def obj_get_obj_set Let_def) (simp add: obj_get_def)
next
  case (Some tasks)
  then show ?thesis
    by (simp add: obj_get2_def obj_set2_def obj_get_obj_set Let_def)
qed

lemma obj_wf_Nil: "obj_wf []"
  by (simp add: obj_wf_def)

lemma obj_wf2_obj_set2: "obj_wf2 ob \<Longrightarrow> obj_wf2 (obj_set2 s t v ob)"
proof (cases "obj_get ob s")
  case None
  assume "obj_wf2 ob"
  then have "obj_wf2 (obj_set s (obj_set t v []) (obj_set s [] ob))"
    by (intro obj_wf2_obj_set obj_wf_obj_set obj_wf_Nil)
  with None show ?thesis
    by (simp add: obj_set2_def Let_def obj_get_obj_set)
next
  case (Some tasks)
  assume wf: "obj_wf2 ob"
  then have "obj_wf2 (obj_set s (obj_set t v tasks) ob)"
    using Some by (intro obj_wf2_obj_set obj_wf_obj_set) (auto dest: obj_wf_Some)
  with Some show ?thesis
    by (simp add: obj_set2_def Let_def)
qed

lemma obj_delete_Nil_iff: "obj_delete t tasks = [] \<longleftrightarrow> (\<forall>t'. t' \<noteq> t \<longrightarrow> obj_get tasks t' = None)"
  by (induction tasks) (auto simp: obj_delete_def obj_get_def)

lemma obj_get2_obj_delete2:
  "obj_get2 (obj_delete2 s t ob) s' t' = (if s' = s \<and> t' = t then None else obj_get2 ob s' t')"
proof (cases "obj_get ob s")
  case None
  then show ?thesis
    by (simp add: obj_delete2_def obj_get2_def)
next
  case (Some tasks)
  show ?thesis
  proof (cases "obj_delete t tasks = []")
    case True
    with Some show ?thesis
      by (auto simp: obj_delete2_def obj_get2_def obj_get_obj_delete obj_delete_Nil_iff
               split: option.splits)
  next
    case False
    with Some show ?thesis
      by (auto simp: obj_delete2_def obj_get2_def obj_get_obj_delete obj_get_obj_set Let_def
               split: option.splits)
  qed
qed

lemma obj_wf2_obj_delete2: "obj_wf2 ob \<Longrightarrow> obj_wf2 (obj_delete2 s t ob)"
proof (cases "obj_get ob s")
  case None
  assume "obj_wf2 ob"
  with None show ?thesis by (simp add: obj_delete2_def)
next
  case (Some tasks)
  assume wf: "obj_wf2 ob"
  with Some have "obj_wf (obj_delete t tasks)"
    by (auto intro: obj_wf_obj_delete dest: obj_wf_Some)
  with wf Some show ?thesis
    by (auto simp: obj_delete2_def Let_def intro: obj_wf2_obj_set obj_wf2_obj_delete)
qed

subsection \<open>Swarm coordination: stale claims and lookups\<close>

lemma obj_get_Some_iff: "obj_wf ob \<Longrightarrow> obj_get ob k = Some v \<longleftrightarrow> (k, v) \<in> set ob"
  by (simp add: obj_wf_def obj_get_def)

lemma obj_get2_Some_iff:
  assumes "obj_wf2 ob"
  shows "obj_get2 ob s t = Some v \<longleftrightarrow> (\<exists>tasks. (s, tasks) \<in> set ob \<and> (t, v) \<in> set tasks)"
proof
  assume "obj_get2 ob s t = Some v"
  then obtain tasks where a: "obj_get ob s = Some tasks" and b: "obj_get tasks t = Some v"
    by (auto simp: obj_get2_def split: option.splits)
  from assms a have "obj_wf tasks" by (rule obj_wf_Some)
  with a b assms show "\<exists>tasks. (s, tasks) \<in> set ob \<and> (t, v) \<in> set tasks"
    by (auto simp: obj_get_Some_iff obj_wf2_def)
next
  assume "\<exists>tasks. (s, tasks) \<in> set ob \<and> (t, v) \<in> set tasks"
  then obtain tasks where a: "(s, tasks) \<in> set ob" and b: "(t, v) \<in> set tasks" by blast
  from assms a have g: "obj_get ob s = Some tasks"
    by (simp add: obj_get_Some_iff obj_wf2_def)
  with assms have "obj_wf tasks" by (auto dest: obj_wf_Some)
  with b have "obj_get tasks t = Some v" by (simp add: obj_get_Some_iff)
  with g show "obj_get2 ob s t = Some v" by (simp add: obj_get2_def)
qed

lemma obj_get_filter:
  "obj_wf tasks \<Longrightarrow>
   obj_get (filter (\<lambda>tc. P (snd tc)) tasks) t
     = (case obj_get tasks t of None \<Rightarrow> None | Some c \<Rightarrow> if P c then Some c else None)"
proof (induction tasks)
  case Nil
  then show ?case by (simp add: obj_get_def)
next
  case (Cons a tasks)
  obtain k c where a: "a = (k, c)" by (cases a)
  from Cons.prems have wf: "obj_wf tasks" and nk: "k \<notin> fst ` set tasks"
    by (auto simp: obj_wf_def a)
  from nk have "obj_get (filter (\<lambda>tc. P (snd tc)) tasks) k = None"
    by (auto simp: obj_get_None_iff)
  with Cons.IH [OF wf] show ?case
    by (auto simp: a obj_get_def)
qed

lemma cleanup_keys: "fst ` set (fst (cleanupStaleClaims cl dirs)) \<subseteq> fst ` set cl"
  by (induction cl dirs rule: cleanupStaleClaims.induct) (auto simp: Let_def)

lemma cleanup_wf2: "obj_wf2 cl \<Longrightarrow> obj_wf2 (fst (cleanupStaleClaims cl dirs))"
proof (induction cl dirs rule: cleanupStaleClaims.induct)
  case (1 dirs)
  then show ?case by simp
next
  case (2 spec tasks others dirs)
  from "2.prems" have wf: "obj_wf2 others" and ns: "spec \<notin> fst ` set others"
    and wft: "obj_wf tasks"
    by (auto simp: obj_wf2_def obj_wf_def)
  from ns cleanup_keys [of others dirs]
  have ns': "spec \<notin> fst ` set (fst (cleanupStaleClaims others dirs))" by blast
  from wft have "obj_wf (filter (\<lambda>tc. \<not> isClaimStale (snd tc) dirs) tasks)"
    by (simp add: obj_wf_def distinct_map_filter)
  with "2.IH" [OF refl refl wf] ns' show ?case
    by (auto simp: Let_def obj_wf2_def obj_wf_def)
qed

lemma cleanup_obj_get2:
  "obj_wf2 cl \<Longrightarrow>
   obj_get2 (fst (cleanupStaleClaims cl dirs)) s t = live_claim dirs (obj_get2 cl s t)"
proof (induction cl dirs rule: cleanupStaleClaims.induct)
  case (1 dirs)
  then show ?case by (simp add: obj_get2_def obj_get_def live_claim_def)
next
  case (2 spec tasks others dirs)
  let ?kept = "filter (\<lambda>tc. \<not> isClaimStale (snd tc) dirs) tasks"
  from "2.prems" have wf: "obj_wf2 others" and ns: "spec \<notin> fst ` set others"
    and wft: "obj_wf tasks"
    by (auto simp: obj_wf2_def obj_wf_def)
  from ns cleanup_keys [of others dirs]
  have ns': "obj_get (fst (cleanupStaleClaims others dirs)) spec = None"
    by (auto simp: obj_get_None_iff)
  from ns have ns0: "obj_get others spec = None" by (simp add: obj_get_None_iff)
  have kept: "obj_get ?kept t = live_claim dirs (obj_get tasks t)"
    using obj_get_filter [OF wft, of "\<lambda>c. \<not> isClaimStale c dirs" t]
    by (auto simp: live_claim_def split: option.splits)
  note IH = "2.IH" [OF refl refl wf]
  show ?case
  proof (cases "s = spec")
    case True
    have "obj_get2 ((spec, tasks) # others) s t = obj_get tasks t"
      using True by (simp add: obj_get2_def obj_get_def)
    moreover have "obj_get2 (fst (cleanupStaleClaims ((spec, tasks) # others) dirs)) s t
                     = obj_get ?kept t"
    proof (cases "?kept = []")
      case True
      with \<open>s = spec\<close> ns' show ?thesis
        by (simp add: Let_def obj_get2_def) (simp add: obj_get_def)
    next
      case False
      with \<open>s = spec\<close> show ?thesis
        by (simp add: Let_def obj_get2_def obj_get_def)
    qed
    ultimately show ?thesis using kept by simp
  next
    case False
    then have "obj_get2 ((spec, tasks) # others) s t = obj_get2 others s t"
      by (simp add: obj_get2_def obj_get_def)
    moreover from False
    have "obj_get2 (fst (cleanupStaleClaims ((spec, tasks) # others) dirs)) s t
            = obj_get2 (fst (cleanupStaleClaims others dirs)) s t"
      by (simp add: Let_def obj_get2_def obj_get_def)
    ultimately show ?thesis using IH by simp
  qed
qed

lemma cleanup_none_removed:
  "snd (cleanupStaleClaims cl dirs) = 0 \<Longrightarrow> (s, tasks) \<in> set cl \<Longrightarrow> (t, c) \<in> set tasks
     \<Longrightarrow> \<not> isClaimStale c dirs"
proof (induction cl dirs rule: cleanupStaleClaims.induct)
  case (1 dirs)
  then show ?case by simp
next
  case (2 spec tasks' others dirs)
  from "2.prems"(1) have z: "snd (cleanupStaleClaims others dirs) = 0"
    and f: "filter (\<lambda>tc. isClaimStale (snd tc) dirs) tasks' = []"
    by (auto simp: Let_def)
  show ?case
  proof (cases "(s, tasks) = (spec, tasks')")
    case True
    with f "2.prems"(3) show ?thesis
      by (auto simp: filter_empty_conv)
  next
    case False
    with "2.prems"(2) have "(s, tasks) \<in> set others" by auto
    with "2.IH" [OF refl refl z] "2.prems"(3) show ?thesis by blast
  qed
qed

lemma cleanup_none_removed_get2:
  assumes "snd (cleanupStaleClaims cl dirs) = 0" "obj_wf2 cl"
  shows "live_claim dirs (obj_get2 cl s t) = obj_get2 cl s t"
proof (cases "obj_get2 cl s t")
  case None
  then show ?thesis by (simp add: live_claim_def)
next
  case (Some c)
  with assms(2) obtain tasks where "(s, tasks) \<in> set cl" "(t, c) \<in> set tasks"
    by (auto simp: obj_get2_Some_iff)
  with assms(1) have "\<not> isClaimStale c dirs" by (rule cleanup_none_removed)
  with Some show ?thesis by (simp add: live_claim_def)
qed

lemma findAgentTask_None: "findAgentTask tasks a = None \<longleftrightarrow> (\<forall>tc \<in> set tasks. agent (snd tc) \<noteq> a)"
  by (induction tasks a rule: findAgentTask.induct) auto

lemma findAgentTask_Some:
  "findAgentTask tasks a = Some t \<Longrightarrow> \<exists>c. (t, c) \<in> set tasks \<and> agent c = a"
  by (induction tasks a rule: findAgentTask.induct) (auto split: if_splits)

lemma findAgentClaim_None:
  "findAgentClaim cl a = None
     \<longleftrightarrow> (\<forall>st \<in> set cl. \<forall>tc \<in> set (snd st). agent (snd tc) \<noteq> a)"
proof (induction cl a rule: findAgentClaim.induct)
  case (1 a)
  then show ?case by simp
next
  case (2 spec tasks others a)
  show ?case
  proof (cases "findAgentTask tasks a")
    case None
    from None have "\<forall>tc \<in> set tasks. agent (snd tc) \<noteq> a"
      by (simp add: findAgentTask_None)
    with "2.IH" [OF None] None show ?thesis
      by simp
  next
    case (Some t)
    then obtain c where "(t, c) \<in> set tasks" "agent c = a"
      by (auto dest: findAgentTask_Some)
    then have "\<exists>tc \<in> set tasks. agent (snd tc) = a" by force
    with Some show ?thesis by simp
  qed
qed

lemma findAgentClaim_Some:
  "findAgentClaim cl a = Some (s, t)
     \<Longrightarrow> \<exists>tasks c. (s, tasks) \<in> set cl \<and> (t, c) \<in> set tasks \<and> agent c = a"
  by (induction cl a rule: findAgentClaim.induct)
     (auto split: option.splits dest: findAgentTask_Some)

lemma findAgentClaim_None_get2:
  assumes "obj_wf2 cl"
  shows "findAgentClaim cl a = None \<longleftrightarrow> (\<forall>s t c. obj_get2 cl s t = Some c \<longrightarrow> agent c \<noteq> a)"
  unfolding findAgentClaim_None obj_get2_Some_iff [OF assms] by fastforce

lemma findAgentClaim_Some_get2:
  assumes "obj_wf2 cl" "findAgentClaim cl a = Some (s, t)"
  shows "\<exists>c. obj_get2 cl s t = Some c \<and> agent c = a"
  using findAgentClaim_Some [OF assms(2)] obj_get2_Some_iff [OF assms(1)] by blast

lemma entries_Cons:
  "entries ((s, tasks) # ob) = map (\<lambda>tc. ((s, fst tc), snd tc)) tasks @ entries ob"
  by (simp add: entries_def)

lemma set_entries:
  "set (entries ob) = {((s, t), v) | s t v tasks. (s, tasks) \<in> set ob \<and> (t, v) \<in> set tasks}"
  by (auto simp: entries_def) force

lemma set_entries_wf2:
  "obj_wf2 ob \<Longrightarrow> ((s, t), v) \<in> set (entries ob) \<longleftrightarrow> obj_get2 ob s t = Some v"
  by (auto simp: set_entries obj_get2_Some_iff)

lemma entries_keys: "e \<in> set (entries ob) \<Longrightarrow> fst (fst e) \<in> fst ` set ob"
proof (induction ob)
  case Nil
  then show ?case by (simp add: entries_def)
next
  case (Cons a ob)
  obtain s tasks where a: "a = (s, tasks)" by (cases a)
  from Cons show ?case
    by (auto simp: a entries_Cons)
qed

lemma distinct_entries_keys: "obj_wf2 ob \<Longrightarrow> distinct (map fst (entries ob))"
proof (induction ob)
  case Nil
  then show ?case by (simp add: entries_def)
next
  case (Cons a ob)
  obtain s tasks where a: "a = (s, tasks)" by (cases a)
  from Cons.prems have wf: "obj_wf2 ob" and ns: "s \<notin> fst ` set ob" and wft: "obj_wf tasks"
    by (auto simp: obj_wf2_def obj_wf_def a)
  have d1: "distinct (map fst (map (\<lambda>tc. ((s, fst tc), snd tc)) tasks))"
    using wft by (simp add: obj_wf_def distinct_map comp_def inj_on_def)
  have disj: "set (map fst (map (\<lambda>tc. ((s, fst tc), snd tc)) tasks))
                \<inter> set (map fst (entries ob)) = {}"
  proof -
    have "False" if "e1 \<in> set tasks" "e2 \<in> set (entries ob)" "(s, fst e1) = fst e2" for e1 e2
    proof -
      from that(2) have "fst (fst e2) \<in> fst ` set ob" by (rule entries_keys)
      with that(3) ns show False by (metis fst_conv)
    qed
    then show ?thesis by fastforce
  qed
  have eq: "map fst (entries (a # ob))
              = map fst (map (\<lambda>tc. ((s, fst tc), snd tc)) tasks) @ map fst (entries ob)"
    by (simp add: a entries_Cons)
  show ?case
    unfolding eq distinct_append
    using d1 disj Cons.IH [OF wf] by (intro conjI)
qed

lemma single_claim_iff:
  assumes "obj_wf2 cl"
  shows "single_claim_per_agent cl \<longleftrightarrow> single_map cl"
proof -
  from assms have dk: "distinct (map fst (entries cl))" by (rule distinct_entries_keys)
  then have d: "distinct (entries cl)" by (simp add: distinct_map)
  have mem: "\<And>e. e \<in> set (entries cl) \<longleftrightarrow> obj_get2 cl (fst (fst e)) (snd (fst e)) = Some (snd e)"
  proof -
    fix e :: "(string \<times> string) \<times> ClaimEntry"
    obtain s t c where e: "e = ((s, t), c)" by (metis prod.collapse)
    show "e \<in> set (entries cl) \<longleftrightarrow> obj_get2 cl (fst (fst e)) (snd (fst e)) = Some (snd e)"
      by (simp add: e set_entries_wf2 [OF assms])
  qed
  have "single_claim_per_agent cl \<longleftrightarrow> inj_on (\<lambda>e. agent (snd e)) (set (entries cl))"
    using d by (simp add: single_claim_per_agent_def distinct_map)
  also have "\<dots> \<longleftrightarrow> single_map cl"
  proof
    assume inj: "inj_on (\<lambda>e. agent (snd e)) (set (entries cl))"
    show "single_map cl"
      unfolding single_map_def
    proof (intro allI impI)
      fix s1 t1 c1 s2 t2 c2
      assume h: "obj_get2 cl s1 t1 = Some c1 \<and> obj_get2 cl s2 t2 = Some c2 \<and> agent c1 = agent c2"
      then have "((s1, t1), c1) \<in> set (entries cl)" "((s2, t2), c2) \<in> set (entries cl)"
        by (simp_all add: set_entries_wf2 [OF assms])
      with inj_onD [OF inj, of "((s1, t1), c1)" "((s2, t2), c2)"] h
      have "((s1, t1), c1) = ((s2, t2), c2)"
        by simp
      then show "s1 = s2 \<and> t1 = t2" by simp
    qed
  next
    assume sm: "single_map cl"
    show "inj_on (\<lambda>e. agent (snd e)) (set (entries cl))"
    proof (rule inj_onI)
      fix e1 e2
      assume a: "e1 \<in> set (entries cl)" "e2 \<in> set (entries cl)" "agent (snd e1) = agent (snd e2)"
      from a(1,2) have g: "obj_get2 cl (fst (fst e1)) (snd (fst e1)) = Some (snd e1)"
        "obj_get2 cl (fst (fst e2)) (snd (fst e2)) = Some (snd e2)"
        by (simp_all add: mem)
      with sm a(3) have "fst (fst e1) = fst (fst e2) \<and> snd (fst e1) = snd (fst e2)"
        unfolding single_map_def by blast
      then have k: "fst e1 = fst e2" by (simp add: prod_eq_iff)
      with g have "snd e1 = snd e2" by simp
      with k show "e1 = e2" by (simp add: prod_eq_iff)
    qed
  qed
  finally show ?thesis .
qed

subsection \<open>Swarm coordination: the three operations\<close>

text \<open>The error paths: the cleaned object is written back only when something was removed.\<close>

lemma write_back_wf2:
  assumes "obj_wf2 (claims_json fs)"
  shows "obj_wf2 (claims_json
           (if snd (cleanupStaleClaims (readClaimsSync fs) dirs) > 0
            then writeClaimsSync fs (fst (cleanupStaleClaims (readClaimsSync fs) dirs)) else fs))"
  using assms by (simp add: writeClaimsSync_def readClaimsSync_def cleanup_wf2)

lemma write_back_get2:
  assumes "obj_wf2 (claims_json fs)"
  shows "obj_get2 (claims_json
           (if snd (cleanupStaleClaims (readClaimsSync fs) dirs) > 0
            then writeClaimsSync fs (fst (cleanupStaleClaims (readClaimsSync fs) dirs)) else fs)) s t
         = live_claim dirs (obj_get2 (claims_json fs) s t)"
  using assms
  by (simp add: writeClaimsSync_def readClaimsSync_def cleanup_obj_get2 cleanup_none_removed_get2)

lemma claimTask_wf2:
  assumes "obj_wf2 (claims_json fs)"
  shows "obj_wf2 (claims_json (fst (claimTask fs dirs specPath taskId a session p rsn now)))"
  using write_back_wf2 [OF assms, of dirs] cleanup_wf2 [OF assms, of dirs]
  by (auto simp: claimTask_def Let_def writeClaimsSync_def readClaimsSync_def obj_wf2_obj_set2
           split: option.splits)

lemma claimTask_success_iff:
  assumes "obj_wf2 (claims_json fs)"
  shows "isClaimSuccess (snd (claimTask fs dirs specPath taskId a session p rsn now))
     \<longleftrightarrow> (\<forall>s t c. live_claim dirs (obj_get2 (claims_json fs) s t) = Some c \<longrightarrow> agent c \<noteq> a)
         \<and> live_claim dirs (obj_get2 (claims_json fs) specPath taskId) = None"
proof -
  let ?cl = "fst (cleanupStaleClaims (readClaimsSync fs) dirs)"
  have wf: "obj_wf2 ?cl" using assms by (simp add: readClaimsSync_def cleanup_wf2)
  have g: "\<And>s t. obj_get2 ?cl s t = live_claim dirs (obj_get2 (claims_json fs) s t)"
    using assms by (simp add: readClaimsSync_def cleanup_obj_get2)
  show ?thesis
  proof (cases "findAgentClaim ?cl a")
    case None
    then have "\<forall>s t c. obj_get2 ?cl s t = Some c \<longrightarrow> agent c \<noteq> a"
      by (simp add: findAgentClaim_None_get2 [OF wf])
    with None show ?thesis
      by (auto simp: claimTask_def Let_def isClaimSuccess_def g split: option.splits)
  next
    case (Some k)
    obtain s t where k: "k = (s, t)" by (cases k)
    from findAgentClaim_Some_get2 [OF wf Some [unfolded k]] obtain c
      where "obj_get2 ?cl s t = Some c" "agent c = a" by blast
    then have "\<not> (\<forall>s t c. live_claim dirs (obj_get2 (claims_json fs) s t) = Some c \<longrightarrow> agent c \<noteq> a)"
      by (auto simp: g)
    with Some show ?thesis
      by (simp add: claimTask_def Let_def isClaimSuccess_def)
  qed
qed

lemma claimTask_claims_after:
  assumes "obj_wf2 (claims_json fs)"
  shows "obj_get2 (claims_json (fst (claimTask fs dirs specPath taskId a session p rsn now))) s t
     = (if isClaimSuccess (snd (claimTask fs dirs specPath taskId a session p rsn now))
           \<and> s = specPath \<and> t = taskId
        then Some \<lparr>agent = a, sessionId = session, pid = p, claimedAt = now, reason = rsn\<rparr>
        else live_claim dirs (obj_get2 (claims_json fs) s t))"
proof -
  let ?cl = "fst (cleanupStaleClaims (readClaimsSync fs) dirs)"
  have g: "\<And>s t. obj_get2 ?cl s t = live_claim dirs (obj_get2 (claims_json fs) s t)"
    using assms by (simp add: readClaimsSync_def cleanup_obj_get2)
  show ?thesis
  proof (cases "findAgentClaim ?cl a")
    case (Some k)
    then show ?thesis
      using write_back_get2 [OF assms, of dirs s t]
      by (simp add: claimTask_def Let_def isClaimSuccess_def)
  next
    case None
    show ?thesis
    proof (cases "obj_get2 ?cl specPath taskId")
      case (Some c)
      with None show ?thesis
        using write_back_get2 [OF assms, of dirs s t]
        by (simp add: claimTask_def Let_def isClaimSuccess_def)
    next
      case n2: None
      with None show ?thesis
        by (simp add: claimTask_def Let_def isClaimSuccess_def writeClaimsSync_def
              obj_get2_obj_set2 g)
    qed
  qed
qed

lemma unclaimTask_wf2:
  assumes "obj_wf2 (claims_json fs)"
  shows "obj_wf2 (claims_json (fst (unclaimTask fs dirs specPath taskId a)))"
  using write_back_wf2 [OF assms, of dirs] cleanup_wf2 [OF assms, of dirs]
  by (auto simp: unclaimTask_def Let_def writeClaimsSync_def readClaimsSync_def obj_wf2_obj_delete2
           split: option.splits)

lemma unclaimTask_claims_after:
  assumes "obj_wf2 (claims_json fs)"
  shows "obj_get2 (claims_json (fst (unclaimTask fs dirs specPath taskId a))) s t
     = (if snd (unclaimTask fs dirs specPath taskId a) = UnclaimSuccess \<and> s = specPath \<and> t = taskId
        then None
        else live_claim dirs (obj_get2 (claims_json fs) s t))"
proof -
  let ?cl = "fst (cleanupStaleClaims (readClaimsSync fs) dirs)"
  have g: "\<And>s t. obj_get2 ?cl s t = live_claim dirs (obj_get2 (claims_json fs) s t)"
    using assms by (simp add: readClaimsSync_def cleanup_obj_get2)
  show ?thesis
  proof (cases "obj_get2 ?cl specPath taskId")
    case None
    then show ?thesis
      using write_back_get2 [OF assms, of dirs s t]
      by (simp add: unclaimTask_def Let_def)
  next
    case (Some c)
    show ?thesis
    proof (cases "agent c = a")
      case False
      with Some show ?thesis
        using write_back_get2 [OF assms, of dirs s t]
        by (simp add: unclaimTask_def Let_def)
    next
      case True
      with Some show ?thesis
        by (simp add: unclaimTask_def Let_def writeClaimsSync_def obj_get2_obj_delete2 g)
    qed
  qed
qed

lemma completeTask_wf2:
  assumes "obj_wf2 (claims_json fs)"
  shows "obj_wf2 (claims_json (fst (completeTask fs dirs specPath taskId a nts now)))"
  using write_back_wf2 [OF assms, of dirs] cleanup_wf2 [OF assms, of dirs]
  by (auto simp: completeTask_def Let_def writeClaimsSync_def writeCompletionsSync_def
           readClaimsSync_def obj_wf2_obj_delete2 split: option.splits)


lemma completeTask_claims_after:
  assumes "obj_wf2 (claims_json fs)"
  shows "obj_get2 (claims_json (fst (completeTask fs dirs specPath taskId a nts now))) s t
     = (if isCompleteSuccess (snd (completeTask fs dirs specPath taskId a nts now))
           \<and> s = specPath \<and> t = taskId
        then None
        else live_claim dirs (obj_get2 (claims_json fs) s t))"
proof -
  let ?cl = "fst (cleanupStaleClaims (readClaimsSync fs) dirs)"
  have g: "\<And>s t. obj_get2 ?cl s t = live_claim dirs (obj_get2 (claims_json fs) s t)"
    using assms by (simp add: readClaimsSync_def cleanup_obj_get2)
  show ?thesis
  proof (cases "obj_get2 (readCompletionsSync fs) specPath taskId")
    case (Some e)
    then show ?thesis
      using write_back_get2 [OF assms, of dirs s t]
      by (simp add: completeTask_def Let_def isCompleteSuccess_def)
  next
    case None
    show ?thesis
    proof (cases "obj_get2 ?cl specPath taskId")
      case n2: None
      with None show ?thesis
        using write_back_get2 [OF assms, of dirs s t]
        by (simp add: completeTask_def Let_def isCompleteSuccess_def)
    next
      case (Some c)
      show ?thesis
      proof (cases "agent c = a")
        case False
        with None Some show ?thesis
          using write_back_get2 [OF assms, of dirs s t]
          by (simp add: completeTask_def Let_def isCompleteSuccess_def)
      next
        case True
        with None Some show ?thesis
          by (simp add: completeTask_def Let_def isCompleteSuccess_def writeClaimsSync_def
                writeCompletionsSync_def obj_get2_obj_delete2 g)
      qed
    qed
  qed
qed




lemma single_map_sub:
  assumes "single_map cl" "\<And>s t c. obj_get2 cl' s t = Some c \<Longrightarrow> obj_get2 cl s t = Some c"
  shows "single_map cl'"
  using assms unfolding single_map_def by blast

lemma live_claim_Some: "live_claim dirs oc = Some c \<longleftrightarrow> oc = Some c \<and> \<not> isClaimStale c dirs"
  by (auto simp: live_claim_def split: option.splits)

lemma claimTask_single:
  assumes wf: "obj_wf2 (claims_json fs)" and sm: "single_map (claims_json fs)"
  shows "single_map (claims_json (fst (claimTask fs dirs specPath taskId a session p rsn now)))"
proof (cases "isClaimSuccess (snd (claimTask fs dirs specPath taskId a session p rsn now))")
  case False
  show ?thesis
  proof (rule single_map_sub [OF sm])
    fix s t c
    assume "obj_get2 (claims_json (fst (claimTask fs dirs specPath taskId a session p rsn now))) s t = Some c"
    with False show "obj_get2 (claims_json fs) s t = Some c"
      by (simp add: claimTask_claims_after [OF wf] live_claim_Some)
  qed
next
  case True
  let ?new = "\<lparr>agent = a, sessionId = session, pid = p, claimedAt = now, reason = rsn\<rparr>"
  from True have fresh: "\<And>s t c. obj_get2 (claims_json fs) s t = Some c \<Longrightarrow> \<not> isClaimStale c dirs
                            \<Longrightarrow> agent c \<noteq> a"
    by (simp add: claimTask_success_iff [OF wf] live_claim_Some)
  have after: "\<And>s t c. obj_get2 (claims_json (fst (claimTask fs dirs specPath taskId a session p rsn now))) s t = Some c
        \<Longrightarrow> (s = specPath \<and> t = taskId \<and> c = ?new)
            \<or> (obj_get2 (claims_json fs) s t = Some c \<and> \<not> isClaimStale c dirs \<and> \<not> (s = specPath \<and> t = taskId))"
    using True by (auto simp: claimTask_claims_after [OF wf] live_claim_Some split: if_splits)
  show ?thesis
    unfolding single_map_def
  proof (intro allI impI)
    fix s1 t1 c1 s2 t2 c2
    assume h: "obj_get2 (claims_json (fst (claimTask fs dirs specPath taskId a session p rsn now))) s1 t1 = Some c1
             \<and> obj_get2 (claims_json (fst (claimTask fs dirs specPath taskId a session p rsn now))) s2 t2 = Some c2
             \<and> agent c1 = agent c2"
    from h have g1: "obj_get2 (claims_json (fst (claimTask fs dirs specPath taskId a session p rsn now))) s1 t1 = Some c1"
      and g2: "obj_get2 (claims_json (fst (claimTask fs dirs specPath taskId a session p rsn now))) s2 t2 = Some c2"
      and ag: "agent c1 = agent c2" by simp_all
    consider (nn) "s1 = specPath \<and> t1 = taskId \<and> c1 = ?new" "s2 = specPath \<and> t2 = taskId \<and> c2 = ?new"
      | (no) "s1 = specPath \<and> t1 = taskId \<and> c1 = ?new"
             "obj_get2 (claims_json fs) s2 t2 = Some c2 \<and> \<not> isClaimStale c2 dirs"
      | (on) "obj_get2 (claims_json fs) s1 t1 = Some c1 \<and> \<not> isClaimStale c1 dirs"
             "s2 = specPath \<and> t2 = taskId \<and> c2 = ?new"
      | (oo) "obj_get2 (claims_json fs) s1 t1 = Some c1" "obj_get2 (claims_json fs) s2 t2 = Some c2"
      using after [OF g1] after [OF g2] by blast
    then show "s1 = s2 \<and> t1 = t2"
    proof cases
      case nn
      then show ?thesis by simp
    next
      case no
      from no(2) have "agent c2 \<noteq> a" using fresh by blast
      with no(1) ag show ?thesis by simp
    next
      case on
      from on(1) have "agent c1 \<noteq> a" using fresh by blast
      with on(2) ag show ?thesis by simp
    next
      case oo
      with sm ag show ?thesis unfolding single_map_def by blast
    qed
  qed
qed

lemma unclaimTask_single:
  assumes wf: "obj_wf2 (claims_json fs)" and sm: "single_map (claims_json fs)"
  shows "single_map (claims_json (fst (unclaimTask fs dirs specPath taskId a)))"
proof (rule single_map_sub [OF sm])
  fix s t c
  assume "obj_get2 (claims_json (fst (unclaimTask fs dirs specPath taskId a))) s t = Some c"
  then show "obj_get2 (claims_json fs) s t = Some c"
    by (simp add: unclaimTask_claims_after [OF wf] live_claim_Some split: if_splits)
qed

lemma completeTask_single:
  assumes wf: "obj_wf2 (claims_json fs)" and sm: "single_map (claims_json fs)"
  shows "single_map (claims_json (fst (completeTask fs dirs specPath taskId a nts now)))"
proof (rule single_map_sub [OF sm])
  fix s t c
  assume "obj_get2 (claims_json (fst (completeTask fs dirs specPath taskId a nts now))) s t = Some c"
  then show "obj_get2 (claims_json fs) s t = Some c"
    by (simp add: completeTask_claims_after [OF wf] live_claim_Some split: if_splits)
qed

lemma reachable_invariant:
  "reachable fs \<Longrightarrow> obj_wf2 (claims_json fs) \<and> single_map (claims_json fs)"
proof (induction rule: reachable.induct)
  case start
  show ?case
    by (simp add: obj_wf2_def obj_wf_def single_map_def obj_get2_def obj_get_def)
next
  case (claim fs dirs specPath taskId agentName session processId rsn now)
  then show ?case by (simp add: claimTask_wf2 claimTask_single)
next
  case (unclaim fs dirs specPath taskId agentName)
  then show ?case by (simp add: unclaimTask_wf2 unclaimTask_single)
next
  case (complete fs dirs specPath taskId agentName nts now)
  then show ?case by (simp add: completeTask_wf2 completeTask_single)
qed

subsection \<open>Swarm coordination: what readers get\<close>

lemma foldl_filter_tasks:
  assumes f: "\<And>acc k c. f acc (k, c) = (if \<not> isClaimStale c dirs then obj_set k c acc else acc)"
  shows "obj_wf tasks \<Longrightarrow>
   obj_get (foldl f acc tasks) t
     = (case live_claim dirs (obj_get tasks t) of Some c \<Rightarrow> Some c | None \<Rightarrow> obj_get acc t)"
proof (induction tasks arbitrary: acc)
  case Nil
  then show ?case by (simp add: live_claim_def obj_get_def)
next
  case (Cons a tasks)
  obtain k c where a: "a = (k, c)" by (cases a)
  from Cons.prems have wf: "obj_wf tasks" and nk: "obj_get tasks k = None"
    by (auto simp: obj_wf_def a obj_get_None_iff)
  show ?case
  proof (cases "t = k")
    case True
    then have a': "a = (t, c)" and nt: "obj_get tasks t = None"
      using a nk by simp_all
    have here: "obj_get (a # tasks) t = Some c"
      by (simp add: a' obj_get_def)
    show ?thesis
      unfolding here
      by (simp add: a' f Cons.IH [OF wf] nt obj_get_obj_set live_claim_def)
  next
    case False
    then have "obj_get (a # tasks) t = obj_get tasks t"
      by (simp add: a obj_get_def)
    with False show ?thesis
      by (simp add: a f Cons.IH [OF wf] obj_get_obj_set split: option.splits)
  qed
qed

lemma filterStaleTasks_get:
  assumes "obj_wf tasks"
  shows "obj_get (filterStaleTasks tasks dirs) t = live_claim dirs (obj_get tasks t)"
proof -
  have "obj_get (filterStaleTasks tasks dirs) t
          = (case live_claim dirs (obj_get tasks t) of Some c \<Rightarrow> Some c | None \<Rightarrow> obj_get [] t)"
    unfolding filterStaleTasks_def
    by (rule foldl_filter_tasks [OF _ assms]) simp
  then show ?thesis
    by (simp add: obj_get_def split: option.splits)
qed

lemma foldl_filter_claims:
  assumes f: "\<And>acc k tasks. f acc (k, tasks) =
                 (if filterStaleTasks tasks dirs = [] then acc
                  else obj_set k (filterStaleTasks tasks dirs) acc)"
  shows "obj_wf claims \<Longrightarrow>
   obj_get (foldl f acc claims) s
     = (case obj_get claims s of
          None \<Rightarrow> obj_get acc s
        | Some tasks \<Rightarrow> if filterStaleTasks tasks dirs = [] then obj_get acc s
                        else Some (filterStaleTasks tasks dirs))"
proof (induction claims arbitrary: acc)
  case Nil
  then show ?case by (simp add: obj_get_def)
next
  case (Cons a claims)
  obtain k tasks where a: "a = (k, tasks)" by (cases a)
  from Cons.prems have wf: "obj_wf claims" and nk: "obj_get claims k = None"
    by (auto simp: obj_wf_def a obj_get_None_iff)
  note IH = Cons.IH [OF wf]
  show ?case
  proof (cases "s = k")
    case True
    then have a': "a = (s, tasks)" and ns: "obj_get claims s = None"
      using a nk by simp_all
    have here: "obj_get (a # claims) s = Some tasks"
      by (simp add: a' obj_get_def)
    show ?thesis
      unfolding here
      by (simp add: a' f IH ns obj_get_obj_set)
  next
    case False
    then have here: "obj_get (a # claims) s = obj_get claims s"
      by (simp add: a obj_get_def)
    from False show ?thesis
      unfolding here
      by (simp add: a f IH obj_get_obj_set split: option.splits)
  qed
qed

lemma filterStaleClaims_get:
  assumes "obj_wf claims"
  shows "obj_get (filterStaleClaims claims dirs) s
     = (case obj_get claims s of
          None \<Rightarrow> None
        | Some tasks \<Rightarrow> if filterStaleTasks tasks dirs = [] then None
                        else Some (filterStaleTasks tasks dirs))"
proof -
  have "obj_get (filterStaleClaims claims dirs) s
     = (case obj_get claims s of
          None \<Rightarrow> obj_get [] s
        | Some tasks \<Rightarrow> if filterStaleTasks tasks dirs = [] then obj_get [] s
                        else Some (filterStaleTasks tasks dirs))"
    unfolding filterStaleClaims_def
    by (rule foldl_filter_claims [OF _ assms]) (simp add: Let_def)
  moreover have "obj_get ([] :: AllClaims) s = None"
    by (simp add: obj_get_def)
  ultimately show ?thesis
    by (simp split: option.splits)
qed

lemma filterStaleClaims_get2:
  assumes "obj_wf2 claims"
  shows "obj_get2 (filterStaleClaims claims dirs) s t = live_claim dirs (obj_get2 claims s t)"
proof -
  from assms have wf: "obj_wf claims" by (simp add: obj_wf2_def)
  show ?thesis
  proof (cases "obj_get claims s")
    case None
    then show ?thesis
      by (simp add: obj_get2_def filterStaleClaims_get [OF wf] live_claim_def)
  next
    case (Some tasks)
    with assms have wft: "obj_wf tasks" by (auto dest: obj_wf_Some)
    show ?thesis
    proof (cases "filterStaleTasks tasks dirs = []")
      case True
      then have "obj_get (filterStaleTasks tasks dirs) t = None" by (simp add: obj_get_def)
      then have "live_claim dirs (obj_get tasks t) = None"
        by (simp add: filterStaleTasks_get [OF wft])
      with Some True show ?thesis
        by (simp add: obj_get2_def filterStaleClaims_get [OF wf])
    next
      case False
      with Some show ?thesis
        by (simp add: obj_get2_def filterStaleClaims_get [OF wf] filterStaleTasks_get [OF wft])
    qed
  qed
qed

subsection \<open>A run of two agents\<close>

lemma array_index_not_digit: "k \<noteq> [] \<Longrightarrow> \<not> is_digit (hd k) \<Longrightarrow> array_index k = None"
  by (cases k) (auto simp: array_index_def)

lemma run_keys: "array_index ''/spec.md'' = None" "array_index ''TASK-1'' = None"
  by (simp_all add: array_index_not_digit is_digit_def)

lemma run_set_first: "obj_set2 ''/spec.md'' ''TASK-1'' v [] = [(''/spec.md'', [(''TASK-1'', v)])]"
  by (simp add: obj_set2_def obj_set_def obj_get_def run_keys)

lemma run_claim_A:
  "claimTask \<lparr>claims_json = [], completions_json = [], write_log = []\<rparr> two_agents
      ''/spec.md'' ''TASK-1'' ''A'' ''sA'' 101 None ''t1''
   = (\<lparr>claims_json = [(''/spec.md'', [(''TASK-1'',
          \<lparr>agent = ''A'', sessionId = ''sA'', pid = 101, claimedAt = ''t1'', reason = None\<rparr>)])],
       completions_json = [], write_log = [CLAIMS_FILE]\<rparr>, ClaimSuccess ''t1'')"
  by (simp add: claimTask_def readClaimsSync_def writeClaimsSync_def obj_get2_def obj_get_def
        run_set_first)

lemma run_A_live:
  "\<not> isClaimStale \<lparr>agent = ''A'', sessionId = ''sA'', pid = 101, claimedAt = ''t1'', reason = None\<rparr>
        two_agents"
  by (simp add: isClaimStale_def two_agents_def)

lemma run_delete_last: "obj_delete2 ''/spec.md'' ''TASK-1'' [(''/spec.md'', [(''TASK-1'', v)])] = []"
  by (simp add: obj_delete2_def obj_delete_def obj_get_def)

lemma run_complete_A:
  "completeTask \<lparr>claims_json = [(''/spec.md'', [(''TASK-1'',
          \<lparr>agent = ''A'', sessionId = ''sA'', pid = 101, claimedAt = ''t1'', reason = None\<rparr>)])],
       completions_json = [], write_log = [CLAIMS_FILE]\<rparr> two_agents
      ''/spec.md'' ''TASK-1'' ''A'' None ''t2''
   = (\<lparr>claims_json = [],
       completions_json = [(''/spec.md'', [(''TASK-1'',
          \<lparr>completedBy = ''A'', completedAt = ''t2'', notes_c = None\<rparr>)])],
       write_log = [CLAIMS_FILE, COMPLETIONS_FILE, CLAIMS_FILE]\<rparr>, CompleteSuccess ''t2'')"
  by (simp add: completeTask_def Let_def readClaimsSync_def readCompletionsSync_def
        writeClaimsSync_def writeCompletionsSync_def run_A_live run_delete_last run_set_first
        obj_get2_def obj_get_def)

lemma run_claim_B:
  "claimTask \<lparr>claims_json = [],
       completions_json = [(''/spec.md'', [(''TASK-1'',
          \<lparr>completedBy = ''A'', completedAt = ''t2'', notes_c = None\<rparr>)])],
       write_log = [CLAIMS_FILE, COMPLETIONS_FILE, CLAIMS_FILE]\<rparr> two_agents
      ''/spec.md'' ''TASK-1'' ''B'' ''sB'' 102 None ''t3''
   = (\<lparr>claims_json = [(''/spec.md'', [(''TASK-1'',
          \<lparr>agent = ''B'', sessionId = ''sB'', pid = 102, claimedAt = ''t3'', reason = None\<rparr>)])],
       completions_json = [(''/spec.md'', [(''TASK-1'',
          \<lparr>completedBy = ''A'', completedAt = ''t2'', notes_c = None\<rparr>)])],
       write_log = [CLAIMS_FILE, COMPLETIONS_FILE, CLAIMS_FILE, CLAIMS_FILE]\<rparr>, ClaimSuccess ''t3'')"
  by (simp add: claimTask_def readClaimsSync_def writeClaimsSync_def obj_get2_def obj_get_def
        run_set_first)

subsection \<open>Swarm coordination: the claims\<close>

text \<open>
  C1. In every state that the three operations reach from the empty files, no
  two claims have the same agent, over all specs. And there, when \<open>claimTask\<close>
  is called for an agent that holds a claim that is not stale, on (spec, task
  id) \<open>(s, t)\<close>, it returns \<open>already_have_claim\<close> with \<open>(s, t)\<close> and
  records no new claim: the stored claims are the old ones without the stale.
\<close>

theorem single_claim_invariant:
  assumes "reachable fs"
  shows "single_claim_per_agent (claims_json fs)
     \<and> (\<forall>dirs s t c specPath taskId session p rsn now.
          obj_get2 (claims_json fs) s t = Some c \<and> \<not> isClaimStale c dirs \<longrightarrow>
            snd (claimTask fs dirs specPath taskId (agent c) session p rsn now) = AlreadyHaveClaim (s, t)
          \<and> (\<forall>s' t'. obj_get2 (claims_json
                  (fst (claimTask fs dirs specPath taskId (agent c) session p rsn now))) s' t'
                = live_claim dirs (obj_get2 (claims_json fs) s' t')))"
proof (intro conjI allI impI)
  from assms have wf: "obj_wf2 (claims_json fs)" and sm: "single_map (claims_json fs)"
    by (simp_all add: reachable_invariant)
  from wf sm show "single_claim_per_agent (claims_json fs)"
    by (simp add: single_claim_iff)
  fix dirs s t c specPath taskId session p rsn now
  assume h: "obj_get2 (claims_json fs) s t = Some c \<and> \<not> isClaimStale c dirs"
  let ?r = "claimTask fs dirs specPath taskId (agent c) session p rsn now"
  let ?cl = "fst (cleanupStaleClaims (readClaimsSync fs) dirs)"
  have wfc: "obj_wf2 ?cl" using wf by (simp add: readClaimsSync_def cleanup_wf2)
  have g: "\<And>s t. obj_get2 ?cl s t = live_claim dirs (obj_get2 (claims_json fs) s t)"
    using wf by (simp add: readClaimsSync_def cleanup_obj_get2)
  from h have here: "obj_get2 ?cl s t = Some c"
    by (simp add: g live_claim_def)
  then have "findAgentClaim ?cl (agent c) \<noteq> None"
    by (auto simp: findAgentClaim_None_get2 [OF wfc])
  then obtain s0 t0 where f: "findAgentClaim ?cl (agent c) = Some (s0, t0)"
    by (cases "findAgentClaim ?cl (agent c)") auto
  from findAgentClaim_Some_get2 [OF wfc f] obtain c0
    where c0: "obj_get2 ?cl s0 t0 = Some c0" "agent c0 = agent c" by blast
  from c0(1) have "obj_get2 (claims_json fs) s0 t0 = Some c0"
    by (simp add: g live_claim_Some)
  with sm h c0(2) have "s0 = s \<and> t0 = t"
    unfolding single_map_def by blast
  with f show res: "snd ?r = AlreadyHaveClaim (s, t)"
    by (simp add: claimTask_def Let_def)
  fix s' t'
  from res have "\<not> isClaimSuccess (snd ?r)"
    by (simp add: isClaimSuccess_def)
  then show "obj_get2 (claims_json (fst ?r)) s' t' = live_claim dirs (obj_get2 (claims_json fs) s' t')"
    by (simp add: claimTask_claims_after [OF wf])
qed

theorem single_claim_invariant_witness:
  "single_claim_per_agent [(''/spec.md'', [(''TASK-1'',
       \<lparr>agent = ''A'', sessionId = ''sA'', pid = 101, claimedAt = ''t1'', reason = None\<rparr>)])]
   \<and> snd (claimTask
        \<lparr>claims_json = [(''/spec.md'', [(''TASK-1'',
            \<lparr>agent = ''A'', sessionId = ''sA'', pid = 101, claimedAt = ''t1'', reason = None\<rparr>)])],
         completions_json = [], write_log = [CLAIMS_FILE]\<rparr>
        two_agents ''/spec.md'' ''TASK-3'' ''A'' ''sA'' 101 None ''t2'')
       = AlreadyHaveClaim (''/spec.md'', ''TASK-1'')
   \<and> obj_get2 (claims_json (fst (claimTask
        \<lparr>claims_json = [(''/spec.md'', [(''TASK-1'',
            \<lparr>agent = ''A'', sessionId = ''sA'', pid = 101, claimedAt = ''t1'', reason = None\<rparr>)])],
         completions_json = [], write_log = [CLAIMS_FILE]\<rparr>
        two_agents ''/spec.md'' ''TASK-3'' ''A'' ''sA'' 101 None ''t2''))) ''/spec.md'' ''TASK-3''
       = None"
proof -
  let ?cA = "\<lparr>agent = ''A'', sessionId = ''sA'', pid = 101, claimedAt = ''t1'', reason = None\<rparr>"
  let ?fs = "\<lparr>claims_json = [(''/spec.md'', [(''TASK-1'', ?cA)])],
              completions_json = [], write_log = [CLAIMS_FILE]\<rparr>"
  have "reachable (fst (claimTask \<lparr>claims_json = [], completions_json = [], write_log = []\<rparr>
          two_agents ''/spec.md'' ''TASK-1'' ''A'' ''sA'' 101 None ''t1''))"
    by (rule reachable.claim [OF reachable.start])
  then have reach: "reachable ?fs"
    by (simp add: run_claim_A)
  have held: "obj_get2 (claims_json ?fs) ''/spec.md'' ''TASK-1'' = Some ?cA
                \<and> \<not> isClaimStale ?cA two_agents"
    by (simp add: obj_get2_def obj_get_def run_A_live)
  note inv = single_claim_invariant [OF reach]
  from inv have one: "single_claim_per_agent (claims_json ?fs)"
    by (rule conjunct1)
  from inv held
  have again: "snd (claimTask ?fs two_agents ''/spec.md'' ''TASK-3'' (agent ?cA) ''sA'' 101 None ''t2'')
                 = AlreadyHaveClaim (''/spec.md'', ''TASK-1'')
             \<and> (\<forall>s' t'. obj_get2 (claims_json (fst (claimTask ?fs two_agents ''/spec.md'' ''TASK-3''
                             (agent ?cA) ''sA'' 101 None ''t2''))) s' t'
                   = live_claim two_agents (obj_get2 (claims_json ?fs) s' t'))"
    by blast
  have none: "live_claim two_agents (obj_get2 (claims_json ?fs) ''/spec.md'' ''TASK-3'') = None"
    by (simp add: live_claim_def obj_get2_def obj_get_def)
  from one again none show ?thesis
    by simp
qed


text \<open>
  C2. \<open>claimTask\<close> never reads the completions, while \<open>completeTask\<close> beside it
  tests them and answers \<open>already_completed\<close>. So completion is not terminal for
  claims: on a run of the operations from the empty files, \<open>A\<close> claims
  \<open>TASK-1\<close> and completes it, the slot is then in the completions, and \<open>B\<close>'s
  claim of the same slot succeeds. (The two keys of the run name no member of
  \<open>Object.prototype\<close>.)
\<close>

theorem claimTask_succeeds_on_completed_slot:
  "obj_get2 (completions_json
       (fst (completeTask
          (fst (claimTask \<lparr>claims_json = [], completions_json = [], write_log = []\<rparr>
                  two_agents ''/spec.md'' ''TASK-1'' ''A'' ''sA'' 101 None ''t1''))
          two_agents ''/spec.md'' ''TASK-1'' ''A'' None ''t2''))) ''/spec.md'' ''TASK-1''
     = Some \<lparr>completedBy = ''A'', completedAt = ''t2'', notes_c = None\<rparr>
   \<and> snd (claimTask
       (fst (completeTask
          (fst (claimTask \<lparr>claims_json = [], completions_json = [], write_log = []\<rparr>
                  two_agents ''/spec.md'' ''TASK-1'' ''A'' ''sA'' 101 None ''t1''))
          two_agents ''/spec.md'' ''TASK-1'' ''A'' None ''t2''))
       two_agents ''/spec.md'' ''TASK-1'' ''B'' ''sB'' 102 None ''t3'')
     = ClaimSuccess ''t3''
   \<and> snd (completeTask
       (fst (completeTask
          (fst (claimTask \<lparr>claims_json = [], completions_json = [], write_log = []\<rparr>
                  two_agents ''/spec.md'' ''TASK-1'' ''A'' ''sA'' 101 None ''t1''))
          two_agents ''/spec.md'' ''TASK-1'' ''A'' None ''t2''))
       two_agents ''/spec.md'' ''TASK-1'' ''B'' None ''t3'')
     = AlreadyCompleted \<lparr>completedBy = ''A'', completedAt = ''t2'', notes_c = None\<rparr>"
  by (simp add: run_claim_A run_complete_A run_claim_B)
     (simp add: obj_get2_def obj_get_def completeTask_def Let_def readCompletionsSync_def)



text \<open>
  C4 (as amended). A claim is stale exactly when its recorded PID is dead, or
  the registration file for its agent name is missing or unreadable, or the
  PID recorded in that registration is dead, or that registration's session
  id differs from the claim's. On a claims file without repeated keys and
  without the key \<open>__proto__\<close>, \<open>getClaims\<close> returns exactly the claims of
  the file that are not stale. On a claims file without repeated keys, for a
  spec path and a task id that name no member of \<open>Object.prototype\<close>, after
  \<open>claimTask\<close>, \<open>unclaimTask\<close> and \<open>completeTask\<close> every slot of the stored
  mapping holds its old claim unless stale (then nothing), but for the slot
  that the operation itself wrote on success.
\<close>

theorem stale_claims_removed:
  "(isClaimStale claim dirs \<longleftrightarrow>
       \<not> isProcessAlive dirs (pid claim)
     \<or> registry dirs (agent claim) = RegMissing
     \<or> registry dirs (agent claim) = RegUnreadable
     \<or> (\<exists>reg. registry dirs (agent claim) = RegFile reg
            \<and> (\<not> isProcessAlive dirs (reg_pid reg) \<or> reg_sessionId reg \<noteq> sessionId claim)))
   \<and> (obj_wf2 (claims_json fs) \<and> no_proto_key (claims_json fs) \<longrightarrow>
        (\<forall>s t. obj_get2 (getClaims fs dirs) s t = live_claim dirs (obj_get2 (claims_json fs) s t))
      \<and> (\<forall>s t c. obj_get2 (getClaims fs dirs) s t = Some c \<longrightarrow> \<not> isClaimStale c dirs))
   \<and> (obj_wf2 (claims_json fs) \<and> plain_key specPath \<and> plain_key taskId \<longrightarrow>
        (\<forall>s t. obj_get2 (claims_json (fst (claimTask fs dirs specPath taskId a session p rsn now))) s t
             = (if isClaimSuccess (snd (claimTask fs dirs specPath taskId a session p rsn now))
                   \<and> s = specPath \<and> t = taskId
                then Some \<lparr>agent = a, sessionId = session, pid = p, claimedAt = now, reason = rsn\<rparr>
                else live_claim dirs (obj_get2 (claims_json fs) s t)))
      \<and> (\<forall>s t. obj_get2 (claims_json (fst (unclaimTask fs dirs specPath taskId a))) s t
             = (if snd (unclaimTask fs dirs specPath taskId a) = UnclaimSuccess
                   \<and> s = specPath \<and> t = taskId
                then None
                else live_claim dirs (obj_get2 (claims_json fs) s t)))
      \<and> (\<forall>s t. obj_get2 (claims_json (fst (completeTask fs dirs specPath taskId a nts now))) s t
             = (if isCompleteSuccess (snd (completeTask fs dirs specPath taskId a nts now))
                   \<and> s = specPath \<and> t = taskId
                then None
                else live_claim dirs (obj_get2 (claims_json fs) s t))))"
proof (intro conjI impI allI)
  show "isClaimStale claim dirs \<longleftrightarrow>
       \<not> isProcessAlive dirs (pid claim)
     \<or> registry dirs (agent claim) = RegMissing
     \<or> registry dirs (agent claim) = RegUnreadable
     \<or> (\<exists>reg. registry dirs (agent claim) = RegFile reg
            \<and> (\<not> isProcessAlive dirs (reg_pid reg) \<or> reg_sessionId reg \<noteq> sessionId claim))"
    by (cases "registry dirs (agent claim)") (auto simp: isClaimStale_def)
next
  fix s t
  assume "obj_wf2 (claims_json fs) \<and> no_proto_key (claims_json fs)"
  then show "obj_get2 (getClaims fs dirs) s t = live_claim dirs (obj_get2 (claims_json fs) s t)"
    by (simp add: getClaims_def readClaimsSync_def filterStaleClaims_get2)
next
  fix s t c
  assume "obj_wf2 (claims_json fs) \<and> no_proto_key (claims_json fs)"
    "obj_get2 (getClaims fs dirs) s t = Some c"
  then show "\<not> isClaimStale c dirs"
    by (simp add: getClaims_def readClaimsSync_def filterStaleClaims_get2 live_claim_Some)
next
  fix s t
  assume "obj_wf2 (claims_json fs) \<and> plain_key specPath \<and> plain_key taskId"
  then have "obj_wf2 (claims_json fs)" by simp
  then show "obj_get2 (claims_json (fst (claimTask fs dirs specPath taskId a session p rsn now))) s t
             = (if isClaimSuccess (snd (claimTask fs dirs specPath taskId a session p rsn now))
                   \<and> s = specPath \<and> t = taskId
                then Some \<lparr>agent = a, sessionId = session, pid = p, claimedAt = now, reason = rsn\<rparr>
                else live_claim dirs (obj_get2 (claims_json fs) s t))"
    by (rule claimTask_claims_after)
next
  fix s t
  assume "obj_wf2 (claims_json fs) \<and> plain_key specPath \<and> plain_key taskId"
  then have "obj_wf2 (claims_json fs)" by simp
  then show "obj_get2 (claims_json (fst (unclaimTask fs dirs specPath taskId a))) s t
             = (if snd (unclaimTask fs dirs specPath taskId a) = UnclaimSuccess
                   \<and> s = specPath \<and> t = taskId
                then None
                else live_claim dirs (obj_get2 (claims_json fs) s t))"
    by (rule unclaimTask_claims_after)
next
  fix s t
  assume "obj_wf2 (claims_json fs) \<and> plain_key specPath \<and> plain_key taskId"
  then have "obj_wf2 (claims_json fs)" by simp
  then show "obj_get2 (claims_json (fst (completeTask fs dirs specPath taskId a nts now))) s t
             = (if isCompleteSuccess (snd (completeTask fs dirs specPath taskId a nts now))
                   \<and> s = specPath \<and> t = taskId
                then None
                else live_claim dirs (obj_get2 (claims_json fs) s t))"
    by (rule completeTask_claims_after)
qed

theorem stale_claims_removed_witness:
  "isClaimStale \<lparr>agent = ''Z'', sessionId = ''sZ'', pid = 101, claimedAt = ''t0'', reason = None\<rparr>
      two_agents
   \<and> obj_get2 (getClaims
        \<lparr>claims_json = [(''/spec.md'',
            [(''TASK-1'', \<lparr>agent = ''A'', sessionId = ''sA'', pid = 101, claimedAt = ''t1'', reason = None\<rparr>),
             (''TASK-9'', \<lparr>agent = ''Z'', sessionId = ''sZ'', pid = 101, claimedAt = ''t0'', reason = None\<rparr>)])],
         completions_json = [], write_log = []\<rparr> two_agents) ''/spec.md'' ''TASK-9'' = None
   \<and> obj_get2 (getClaims
        \<lparr>claims_json = [(''/spec.md'',
            [(''TASK-1'', \<lparr>agent = ''A'', sessionId = ''sA'', pid = 101, claimedAt = ''t1'', reason = None\<rparr>),
             (''TASK-9'', \<lparr>agent = ''Z'', sessionId = ''sZ'', pid = 101, claimedAt = ''t0'', reason = None\<rparr>)])],
         completions_json = [], write_log = []\<rparr> two_agents) ''/spec.md'' ''TASK-1''
       = Some \<lparr>agent = ''A'', sessionId = ''sA'', pid = 101, claimedAt = ''t1'', reason = None\<rparr>
   \<and> obj_get2 (claims_json (fst (unclaimTask
        \<lparr>claims_json = [(''/spec.md'',
            [(''TASK-1'', \<lparr>agent = ''A'', sessionId = ''sA'', pid = 101, claimedAt = ''t1'', reason = None\<rparr>),
             (''TASK-9'', \<lparr>agent = ''Z'', sessionId = ''sZ'', pid = 101, claimedAt = ''t0'', reason = None\<rparr>)])],
         completions_json = [], write_log = []\<rparr> two_agents ''/spec.md'' ''TASK-9'' ''B'')))
       ''/spec.md'' ''TASK-9'' = None"
proof -
  let ?cA = "\<lparr>agent = ''A'', sessionId = ''sA'', pid = 101, claimedAt = ''t1'', reason = None\<rparr>"
  let ?cZ = "\<lparr>agent = ''Z'', sessionId = ''sZ'', pid = 101, claimedAt = ''t0'', reason = None\<rparr>"
  let ?fs = "\<lparr>claims_json = [(''/spec.md'', [(''TASK-1'', ?cA), (''TASK-9'', ?cZ)])],
              completions_json = [], write_log = []\<rparr>"
  note T = stale_claims_removed
             [of ?cZ two_agents ?fs "''/spec.md''" "''TASK-9''" "''B''" "''sB''" 102 None "''t5''" None]
  have missing: "registry two_agents (agent ?cZ) = RegMissing"
    by (simp add: two_agents_def)
  from T missing have stale: "isClaimStale ?cZ two_agents"
    by blast
  have wf: "obj_wf2 (claims_json ?fs) \<and> no_proto_key (claims_json ?fs)"
    by (simp add: obj_wf2_def obj_wf_def no_proto_key_def)
  have plain: "obj_wf2 (claims_json ?fs) \<and> plain_key ''/spec.md'' \<and> plain_key ''TASK-9''"
    by (simp add: obj_wf2_def obj_wf_def plain_key_def inherited_name_def)
  have g1: "obj_get2 (claims_json ?fs) ''/spec.md'' ''TASK-9'' = Some ?cZ"
    and g2: "obj_get2 (claims_json ?fs) ''/spec.md'' ''TASK-1'' = Some ?cA"
    by (simp_all add: obj_get2_def obj_get_def)
  from T wf plain have
    r1: "obj_get2 (getClaims ?fs two_agents) ''/spec.md'' ''TASK-9''
           = live_claim two_agents (obj_get2 (claims_json ?fs) ''/spec.md'' ''TASK-9'')"
    and r2: "obj_get2 (getClaims ?fs two_agents) ''/spec.md'' ''TASK-1''
           = live_claim two_agents (obj_get2 (claims_json ?fs) ''/spec.md'' ''TASK-1'')"
    and r3: "obj_get2 (claims_json (fst (unclaimTask ?fs two_agents ''/spec.md'' ''TASK-9'' ''B'')))
              ''/spec.md'' ''TASK-9''
           = (if snd (unclaimTask ?fs two_agents ''/spec.md'' ''TASK-9'' ''B'') = UnclaimSuccess
                   \<and> ''/spec.md'' = ''/spec.md'' \<and> ''TASK-9'' = ''TASK-9''
              then None
              else live_claim two_agents (obj_get2 (claims_json ?fs) ''/spec.md'' ''TASK-9''))"
    by blast+
  from stale have l1: "live_claim two_agents (Some ?cZ) = None"
    by (simp add: live_claim_def)
  have l2: "live_claim two_agents (Some ?cA) = Some ?cA"
    by (simp add: live_claim_def run_A_live)
  from stale r1 r2 r3 show ?thesis
    unfolding g1 g2 l1 l2 by simp
qed

text \<open>
  The claim as stated leaves out one cause: here the claim's own PID is alive,
  the registration file is there and readable, and the session ids agree; the
  claim is stale all the same, because the PID in the registration is dead.
\<close>

theorem stale_definition_counterexample:
  "isClaimStale \<lparr>agent = ''A'', sessionId = ''sA'', pid = 101, claimedAt = ''t1'', reason = None\<rparr>
      \<lparr>isProcessAlive = (\<lambda>p. p = 101),
       registry = (\<lambda>n. RegFile \<lparr>reg_pid = 999, reg_sessionId = ''sA''\<rparr>)\<rparr>
   \<and> isProcessAlive \<lparr>isProcessAlive = (\<lambda>p. p = 101),
         registry = (\<lambda>n. RegFile \<lparr>reg_pid = 999, reg_sessionId = ''sA''\<rparr>)\<rparr> 101
   \<and> registry \<lparr>isProcessAlive = (\<lambda>p. p = 101),
         registry = (\<lambda>n. RegFile \<lparr>reg_pid = 999, reg_sessionId = ''sA''\<rparr>)\<rparr> ''A''
        = RegFile \<lparr>reg_pid = 999, reg_sessionId = ''sA''\<rparr>
   \<and> reg_sessionId \<lparr>reg_pid = 999, reg_sessionId = ''sA''\<rparr> = ''sA''"
  by (simp add: isClaimStale_def)

subsection \<open>Task blocking\<close>

lemma blockTask_any_status:
  assumes "getTask st taskId = Some task"
  shows "blockTask st taskId rsn blockedAt now
     = (st\<lparr>block_files := (block_files st)(taskId \<mapsto>
              ''# Blocked: '' @ title task @ newline @ newline
                 @ ''**Reason:** '' @ rsn @ newline @ newline
                 @ ''**Blocked at:** '' @ blockedAt @ newline),
            task_files := (task_files st)(taskId \<mapsto>
              task\<lparr>status := Blocked, blocked_reason := Some rsn, assigned_to := None,
                   updated_at := now\<rparr>)\<rparr>,
        Some (task\<lparr>status := Blocked, blocked_reason := Some rsn, assigned_to := None,
                   updated_at := now\<rparr>))"
  using assms by (simp add: blockTask_def updateTask_def getTask_def Let_def)

lemma sibling_transitions_guarded:
  assumes "getTask st taskId = Some task"
  shows "status task \<noteq> Todo \<Longrightarrow>
           startTask st taskId agentName baseCommit startTime now = (st, None)"
    and "status task \<noteq> Blocked \<Longrightarrow> unblockTask st taskId now = (st, None)"
  using assms by (simp_all add: startTask_def unblockTask_def)

text \<open>
  C8. The store's \<open>blockTask\<close> and the handler \<open>taskBlock\<close> have no guard on
  the status the task is in, unlike \<open>startTask\<close> and \<open>unblockTask\<close> beside
  them. From in_progress the task becomes blocked, with its assignee cleared
  and the reason in the task and in the block file, as the claim says; but a
  task that is todo (and likewise done or blocked) is blocked just the same.
\<close>

theorem taskBlock_blocks_todo_task:
  "snd (taskBlock \<lparr>task_files = [''task-1'' \<mapsto> new_task ''task-1'' ''Setup'' [] ''t0''],
                   block_files = Map.empty\<rparr>
          (Some ''task-1'') (Some ''waiting'') ''t1'' ''t2'')
     = BlockDetails ''task-1'' ''Setup'' Blocked (Some ''waiting'')
   \<and> map_option status
        (getTask (fst (taskBlock \<lparr>task_files = [''task-1'' \<mapsto> new_task ''task-1'' ''Setup'' [] ''t0''],
                                 block_files = Map.empty\<rparr>
                        (Some ''task-1'') (Some ''waiting'') ''t1'' ''t2'')) ''task-1'')
     = Some Blocked
   \<and> map_option status
        (snd (blockTask \<lparr>task_files = [''task-1'' \<mapsto>
                              (new_task ''task-1'' ''Setup'' [] ''t0'')\<lparr>status := Done\<rparr>],
                          block_files = Map.empty\<rparr> ''task-1'' ''waiting'' ''t1'' ''t2''))
     = Some Blocked
   \<and> status (new_task ''task-1'' ''Setup'' [] ''t0'') = Todo"
proof -
  let ?t = "new_task ''task-1'' ''Setup'' [] ''t0''"
  let ?st = "\<lparr>task_files = [''task-1'' \<mapsto> ?t], block_files = Map.empty\<rparr>"
  let ?st' = "\<lparr>task_files = [''task-1'' \<mapsto> ?t\<lparr>status := Done\<rparr>], block_files = Map.empty\<rparr>"
  have g: "getTask ?st ''task-1'' = Some ?t"
    by (simp add: getTask_def)
  have g': "getTask ?st' ''task-1'' = Some (?t\<lparr>status := Done\<rparr>)"
    by (simp add: getTask_def)
  have a: "snd (taskBlock ?st (Some ''task-1'') (Some ''waiting'') ''t1'' ''t2'')
             = BlockDetails ''task-1'' ''Setup'' Blocked (Some ''waiting'')"
    by (simp add: taskBlock_def g blockTask_any_status [OF g]) (simp add: new_task_def)
  have b: "map_option status
             (getTask (fst (taskBlock ?st (Some ''task-1'') (Some ''waiting'') ''t1'' ''t2'')) ''task-1'')
             = Some Blocked"
    by (simp add: taskBlock_def g blockTask_any_status [OF g]) (simp add: getTask_def)
  have c: "map_option status (snd (blockTask ?st' ''task-1'' ''waiting'' ''t1'' ''t2'')) = Some Blocked"
    by (simp add: blockTask_any_status [OF g'])
  have d: "status ?t = Todo"
    by (simp add: new_task_def)
  from a b c d show ?thesis by blast
qed

subsection \<open>Autonomous waves\<close>

lemma no_todo_no_ready:
  "list_all (\<lambda>t. status t = Done \<or> status t = Blocked) tasks \<Longrightarrow> getReadyTasks tasks = []"
  by (auto simp: getReadyTasks_def list_all_iff filter_empty_conv)

text \<open>
  C9 (as amended). With \<open>autonomous: true\<close>, after a wave the work handler
  stops with reason completed when all tasks are done; stops with reason
  blocked when not all are done and no task is ready (so also when, besides,
  none is in progress); and otherwise, whatever the wave number is, leaves
  autonomous mode running, persists the state and appends the continuation
  entry for the next wave. The wave cap is not in the work handler: the
  \<open>agent_end\<close> handler applies it afterwards. While autonomous mode is active
  and the wave number has reached \<open>work.maxWaves\<close>, it stops with reason
  manual and sends no continuation message; below the cap, with a task ready,
  it sends the message and leaves the state as it is.
\<close>

theorem autonomous_wave_outcomes:
  "(list_all (\<lambda>t. status t = Done) tasks \<longrightarrow>
       fst (execute_after_wave True st attempted succ fld blk tasks prd waveTime now)
         = stopAutonomous StopCompleted now
             (addWaveResult \<lparr>wave_waveNumber = waveNumber st, tasksAttempted = attempted,
                succeeded = succ, failed = fld, blocked = blk, timestamp = waveTime\<rparr> st)
     \<and> stopReason (fst (execute_after_wave True st attempted succ fld blk tasks prd waveTime now))
         = Some StopCompleted
     \<and> \<not> active (fst (execute_after_wave True st attempted succ fld blk tasks prd waveTime now)))
   \<and> (\<not> list_all (\<lambda>t. status t = Done) tasks \<and> getReadyTasks tasks = [] \<longrightarrow>
       stopReason (fst (execute_after_wave True st attempted succ fld blk tasks prd waveTime now))
         = Some StopBlocked
     \<and> \<not> active (fst (execute_after_wave True st attempted succ fld blk tasks prd waveTime now)))
   \<and> (\<not> list_all (\<lambda>t. status t = Done) tasks \<and> getReadyTasks tasks \<noteq> [] \<longrightarrow>
       execute_after_wave True st attempted succ fld blk tasks prd waveTime now
         = (addWaveResult \<lparr>wave_waveNumber = waveNumber st, tasksAttempted = attempted,
                succeeded = succ, failed = fld, blocked = blk, timestamp = waveTime\<rparr> st,
            [CrewState (addWaveResult \<lparr>wave_waveNumber = waveNumber st, tasksAttempted = attempted,
                succeeded = succ, failed = fld, blocked = blk, timestamp = waveTime\<rparr> st),
             CrewWaveContinue prd (waveNumber st + 1) (map task_id (getReadyTasks tasks))])
     \<and> active (fst (execute_after_wave True st attempted succ fld blk tasks prd waveTime now))
         = active st
     \<and> stopReason (fst (execute_after_wave True st attempted succ fld blk tasks prd waveTime now))
         = stopReason st)
   \<and> (active st \<and> waveNumber st \<ge> maxWaves \<longrightarrow>
       agent_end st maxWaves tasks now = (stopAutonomous StopManual now st, None))
   \<and> (active st \<and> waveNumber st < maxWaves \<and> getReadyTasks tasks \<noteq> [] \<longrightarrow>
       agent_end st maxWaves tasks now
         = (st, Some (waveNumber st, length (getReadyTasks tasks))))"
proof (intro conjI impI)
  assume "list_all (\<lambda>t. status t = Done) tasks"
  then show "fst (execute_after_wave True st attempted succ fld blk tasks prd waveTime now)
         = stopAutonomous StopCompleted now
             (addWaveResult \<lparr>wave_waveNumber = waveNumber st, tasksAttempted = attempted,
                succeeded = succ, failed = fld, blocked = blk, timestamp = waveTime\<rparr> st)"
    and "stopReason (fst (execute_after_wave True st attempted succ fld blk tasks prd waveTime now))
         = Some StopCompleted"
    and "\<not> active (fst (execute_after_wave True st attempted succ fld blk tasks prd waveTime now))"
    by (simp_all add: execute_after_wave_def Let_def stopAutonomous_def)
next
  assume h: "\<not> list_all (\<lambda>t. status t = Done) tasks \<and> getReadyTasks tasks = []"
  then show "stopReason (fst (execute_after_wave True st attempted succ fld blk tasks prd waveTime now))
         = Some StopBlocked"
    and "\<not> active (fst (execute_after_wave True st attempted succ fld blk tasks prd waveTime now))"
    by (simp_all add: execute_after_wave_def Let_def stopAutonomous_def)
next
  assume h: "\<not> list_all (\<lambda>t. status t = Done) tasks \<and> getReadyTasks tasks \<noteq> []"
  then have nb: "\<not> list_all (\<lambda>t. status t = Done \<or> status t = Blocked) tasks"
    using no_todo_no_ready [of tasks] by blast
  from h nb show cont: "execute_after_wave True st attempted succ fld blk tasks prd waveTime now
         = (addWaveResult \<lparr>wave_waveNumber = waveNumber st, tasksAttempted = attempted,
                succeeded = succ, failed = fld, blocked = blk, timestamp = waveTime\<rparr> st,
            [CrewState (addWaveResult \<lparr>wave_waveNumber = waveNumber st, tasksAttempted = attempted,
                succeeded = succ, failed = fld, blocked = blk, timestamp = waveTime\<rparr> st),
             CrewWaveContinue prd (waveNumber st + 1) (map task_id (getReadyTasks tasks))])"
    by (simp add: execute_after_wave_def Let_def addWaveResult_def)
  show "active (fst (execute_after_wave True st attempted succ fld blk tasks prd waveTime now))
         = active st"
    and "stopReason (fst (execute_after_wave True st attempted succ fld blk tasks prd waveTime now))
         = stopReason st"
    unfolding cont by (simp_all add: addWaveResult_def)
next
  assume "active st \<and> waveNumber st \<ge> maxWaves"
  then show "agent_end st maxWaves tasks now = (stopAutonomous StopManual now st, None)"
    by (simp add: agent_end_def)
next
  assume "active st \<and> waveNumber st < maxWaves \<and> getReadyTasks tasks \<noteq> []"
  then show "agent_end st maxWaves tasks now
         = (st, Some (waveNumber st, length (getReadyTasks tasks)))"
    by (simp add: agent_end_def Let_def)
qed

lemma two_tasks_ready:
  "getReadyTasks [(new_task ''task-1'' ''a'' [] ''t0'')\<lparr>status := Done\<rparr>,
                  new_task ''task-2'' ''b'' [''task-1''] ''t0'']
     = [new_task ''task-2'' ''b'' [''task-1''] ''t0'']"
  by (simp add: getReadyTasks_def new_task_def)

lemma wave_50_state:
  "addWaveResult \<lparr>wave_waveNumber = 50, tasksAttempted = [''task-1''], succeeded = [''task-1''],
       failed = [], blocked = [], timestamp = ''t7''\<rparr>
     ((startAutonomous ''/proj'' ''t1'')\<lparr>waveNumber := 50\<rparr>)
   = \<lparr>active = True, cwd = Some ''/proj'', waveNumber = 51, attemptsPerTask = [],
      waveHistory = [\<lparr>wave_waveNumber = 50, tasksAttempted = [''task-1''],
                      succeeded = [''task-1''], failed = [], blocked = [], timestamp = ''t7''\<rparr>],
      startedAt = Some ''t1'', stoppedAt = None, stopReason = None\<rparr>"
  by (simp add: addWaveResult_def startAutonomous_def)

theorem autonomous_wave_outcomes_witness:
  "stopReason (fst (execute_after_wave True (startAutonomous ''/proj'' ''t1'')
       [''task-1''] [''task-1''] [] []
       [(new_task ''task-1'' ''a'' [] ''t0'')\<lparr>status := Done\<rparr>] ''PRD.md'' ''t7'' ''t8''))
     = Some StopCompleted
   \<and> stopReason (fst (execute_after_wave True (startAutonomous ''/proj'' ''t1'')
       [''task-1''] [] [''task-1''] []
       [(new_task ''task-1'' ''a'' [] ''t0'')\<lparr>status := InProgress\<rparr>] ''PRD.md'' ''t7'' ''t8''))
     = Some StopBlocked
   \<and> snd (execute_after_wave True ((startAutonomous ''/proj'' ''t1'')\<lparr>waveNumber := 50\<rparr>)
       [''task-1''] [''task-1''] [] []
       [(new_task ''task-1'' ''a'' [] ''t0'')\<lparr>status := Done\<rparr>,
        new_task ''task-2'' ''b'' [''task-1''] ''t0''] ''PRD.md'' ''t7'' ''t8'')
     = [CrewState \<lparr>active = True, cwd = Some ''/proj'', waveNumber = 51, attemptsPerTask = [],
          waveHistory = [\<lparr>wave_waveNumber = 50, tasksAttempted = [''task-1''],
                          succeeded = [''task-1''], failed = [], blocked = [], timestamp = ''t7''\<rparr>],
          startedAt = Some ''t1'', stoppedAt = None, stopReason = None\<rparr>,
        CrewWaveContinue ''PRD.md'' 51 [''task-2'']]
   \<and> agent_end \<lparr>active = True, cwd = Some ''/proj'', waveNumber = 51, attemptsPerTask = [],
          waveHistory = [\<lparr>wave_waveNumber = 50, tasksAttempted = [''task-1''],
                          succeeded = [''task-1''], failed = [], blocked = [], timestamp = ''t7''\<rparr>],
          startedAt = Some ''t1'', stoppedAt = None, stopReason = None\<rparr> 50
        [(new_task ''task-1'' ''a'' [] ''t0'')\<lparr>status := Done\<rparr>,
         new_task ''task-2'' ''b'' [''task-1''] ''t0''] ''t9''
     = (\<lparr>active = False, cwd = Some ''/proj'', waveNumber = 51, attemptsPerTask = [],
          waveHistory = [\<lparr>wave_waveNumber = 50, tasksAttempted = [''task-1''],
                          succeeded = [''task-1''], failed = [], blocked = [], timestamp = ''t7''\<rparr>],
          startedAt = Some ''t1'', stoppedAt = Some ''t9'', stopReason = Some StopManual\<rparr>, None)"
proof -
  let ?s1 = "startAutonomous ''/proj'' ''t1''"
  let ?done1 = "[(new_task ''task-1'' ''a'' [] ''t0'')\<lparr>status := Done\<rparr>]"
  let ?prog1 = "[(new_task ''task-1'' ''a'' [] ''t0'')\<lparr>status := InProgress\<rparr>]"
  let ?two = "[(new_task ''task-1'' ''a'' [] ''t0'')\<lparr>status := Done\<rparr>,
               new_task ''task-2'' ''b'' [''task-1''] ''t0'']"
  let ?s51 = "\<lparr>active = True, cwd = Some ''/proj'', waveNumber = 51, attemptsPerTask = [],
          waveHistory = [\<lparr>wave_waveNumber = 50, tasksAttempted = [''task-1''],
                          succeeded = [''task-1''], failed = [], blocked = [], timestamp = ''t7''\<rparr>],
          startedAt = Some ''t1'', stoppedAt = None, stopReason = None\<rparr>"
  have d1: "list_all (\<lambda>t. status t = Done) ?done1"
    by simp
  have p1: "\<not> list_all (\<lambda>t. status t = Done) ?prog1 \<and> getReadyTasks ?prog1 = []"
    by (simp add: getReadyTasks_def)
  have t2: "\<not> list_all (\<lambda>t. status t = Done) ?two \<and> getReadyTasks ?two \<noteq> []"
    by (simp add: two_tasks_ready) (simp add: new_task_def)
  have a51: "active ?s51 \<and> waveNumber ?s51 \<ge> 50"
    by simp
  from autonomous_wave_outcomes
         [of ?done1 ?s1 "[''task-1'']" "[''task-1'']" "[]" "[]" "''PRD.md''" "''t7''" "''t8''" 50] d1
  have a: "stopReason (fst (execute_after_wave True ?s1 [''task-1''] [''task-1''] [] [] ?done1
                             ''PRD.md'' ''t7'' ''t8'')) = Some StopCompleted"
    by blast
  from autonomous_wave_outcomes
         [of ?prog1 ?s1 "[''task-1'']" "[]" "[''task-1'']" "[]" "''PRD.md''" "''t7''" "''t8''" 50] p1
  have b: "stopReason (fst (execute_after_wave True ?s1 [''task-1''] [] [''task-1''] [] ?prog1
                             ''PRD.md'' ''t7'' ''t8'')) = Some StopBlocked"
    by blast
  from autonomous_wave_outcomes
         [of ?two "?s1\<lparr>waveNumber := 50\<rparr>" "[''task-1'']" "[''task-1'']" "[]" "[]"
             "''PRD.md''" "''t7''" "''t8''" 50] t2
  have "execute_after_wave True (?s1\<lparr>waveNumber := 50\<rparr>) [''task-1''] [''task-1''] [] [] ?two
          ''PRD.md'' ''t7'' ''t8''
        = (addWaveResult \<lparr>wave_waveNumber = waveNumber (?s1\<lparr>waveNumber := 50\<rparr>),
              tasksAttempted = [''task-1''], succeeded = [''task-1''], failed = [], blocked = [],
              timestamp = ''t7''\<rparr> (?s1\<lparr>waveNumber := 50\<rparr>),
           [CrewState (addWaveResult \<lparr>wave_waveNumber = waveNumber (?s1\<lparr>waveNumber := 50\<rparr>),
              tasksAttempted = [''task-1''], succeeded = [''task-1''], failed = [], blocked = [],
              timestamp = ''t7''\<rparr> (?s1\<lparr>waveNumber := 50\<rparr>)),
            CrewWaveContinue ''PRD.md'' (waveNumber (?s1\<lparr>waveNumber := 50\<rparr>) + 1)
              (map task_id (getReadyTasks ?two))])"
    by blast
  then have c: "snd (execute_after_wave True (?s1\<lparr>waveNumber := 50\<rparr>) [''task-1''] [''task-1''] [] []
                   ?two ''PRD.md'' ''t7'' ''t8'')
                 = [CrewState ?s51, CrewWaveContinue ''PRD.md'' 51 [''task-2'']]"
    by (simp add: wave_50_state two_tasks_ready) (simp add: new_task_def)
  from autonomous_wave_outcomes
         [of ?two ?s51 "[]" "[]" "[]" "[]" "''PRD.md''" "''t7''" "''t9''" 50] a51
  have "agent_end ?s51 50 ?two ''t9'' = (stopAutonomous StopManual ''t9'' ?s51, None)"
    by blast
  then have d: "agent_end ?s51 50 ?two ''t9''
      = (\<lparr>active = False, cwd = Some ''/proj'', waveNumber = 51, attemptsPerTask = [],
          waveHistory = [\<lparr>wave_waveNumber = 50, tasksAttempted = [''task-1''],
                          succeeded = [''task-1''], failed = [], blocked = [], timestamp = ''t7''\<rparr>],
          startedAt = Some ''t1'', stoppedAt = Some ''t9'', stopReason = Some StopManual\<rparr>, None)"
    by (simp add: stopAutonomous_def)
  from a b c d show ?thesis by blast
qed

text \<open>
  The claim as stated fails in the work handler: at the end of wave 50 of a
  run whose \<open>work.maxWaves\<close> is 50, with one task done and the next one ready,
  the handler does not stop. Autonomous mode stays active with no stop reason,
  the wave number becomes 51, and the state and the continuation entry for
  wave 51 are appended.
\<close>

theorem work_handler_no_wave_cap_counterexample:
  "active (fst (execute_after_wave True ((startAutonomous ''/proj'' ''t1'')\<lparr>waveNumber := 50\<rparr>)
       [''task-1''] [''task-1''] [] []
       [(new_task ''task-1'' ''a'' [] ''t0'')\<lparr>status := Done\<rparr>,
        new_task ''task-2'' ''b'' [''task-1''] ''t0''] ''PRD.md'' ''t7'' ''t8''))
   \<and> stopReason (fst (execute_after_wave True ((startAutonomous ''/proj'' ''t1'')\<lparr>waveNumber := 50\<rparr>)
       [''task-1''] [''task-1''] [] []
       [(new_task ''task-1'' ''a'' [] ''t0'')\<lparr>status := Done\<rparr>,
        new_task ''task-2'' ''b'' [''task-1''] ''t0''] ''PRD.md'' ''t7'' ''t8'')) = None
   \<and> (50::int) \<le> waveNumber (fst (execute_after_wave True
       ((startAutonomous ''/proj'' ''t1'')\<lparr>waveNumber := 50\<rparr>)
       [''task-1''] [''task-1''] [] []
       [(new_task ''task-1'' ''a'' [] ''t0'')\<lparr>status := Done\<rparr>,
        new_task ''task-2'' ''b'' [''task-1''] ''t0''] ''PRD.md'' ''t7'' ''t8''))
   \<and> last (snd (execute_after_wave True ((startAutonomous ''/proj'' ''t1'')\<lparr>waveNumber := 50\<rparr>)
       [''task-1''] [''task-1''] [] []
       [(new_task ''task-1'' ''a'' [] ''t0'')\<lparr>status := Done\<rparr>,
        new_task ''task-2'' ''b'' [''task-1''] ''t0''] ''PRD.md'' ''t7'' ''t8''))
     = CrewWaveContinue ''PRD.md'' 51 [''task-2'']"
proof -
  have "execute_after_wave True ((startAutonomous ''/proj'' ''t1'')\<lparr>waveNumber := 50\<rparr>)
       [''task-1''] [''task-1''] [] []
       [(new_task ''task-1'' ''a'' [] ''t0'')\<lparr>status := Done\<rparr>,
        new_task ''task-2'' ''b'' [''task-1''] ''t0''] ''PRD.md'' ''t7'' ''t8''
     = (\<lparr>active = True, cwd = Some ''/proj'', waveNumber = 51, attemptsPerTask = [],
          waveHistory = [\<lparr>wave_waveNumber = 50, tasksAttempted = [''task-1''],
                          succeeded = [''task-1''], failed = [], blocked = [], timestamp = ''t7''\<rparr>],
          startedAt = Some ''t1'', stoppedAt = None, stopReason = None\<rparr>,
        [CrewState \<lparr>active = True, cwd = Some ''/proj'', waveNumber = 51, attemptsPerTask = [],
          waveHistory = [\<lparr>wave_waveNumber = 50, tasksAttempted = [''task-1''],
                          succeeded = [''task-1''], failed = [], blocked = [], timestamp = ''t7''\<rparr>],
          startedAt = Some ''t1'', stoppedAt = None, stopReason = None\<rparr>,
         CrewWaveContinue ''PRD.md'' 51 [''task-2'']])"
    by (simp add: execute_after_wave_def Let_def two_tasks_ready)
       (simp add: new_task_def addWaveResult_def startAutonomous_def)
  then show ?thesis by simp
qed

end
